theory Spec2Isabelle
  imports Complex_Main
begin

section \<open>Dense tensors\<close>

text \<open>
  The agent computes on TensorFlow tensors. A tensor is modelled as TensorFlow stores it:
  a static shape (one extent per axis) and the elements in row-major order. The element
  type is \<open>real\<close>: the arithmetic of the source is read in the reals, as the running
  example in the docstring of \<open>project_distribution\<close> does (rounding of the float
  type is outside the model).
\<close>

record tensor =
  shape :: "nat list"
  elems :: "real list"

definition wf_tensor :: "tensor \<Rightarrow> bool" where
  "wf_tensor t \<longleftrightarrow> length (elems t) = prod_list (shape t)"

text \<open>
  What a call can end in without returning a tensor of reals. \<open>ValueError\<close> and
  \<open>InvalidArgumentError\<close> are the exceptions TensorFlow raises: the first for static
  shapes and slices that do not fit, the second for a failed \<open>tf.Assert\<close>.
  \<open>NonFinite\<close> is not an exception: a float division by zero raises nothing and
  yields an infinity or a NaN, values that are outside the reals. A computation that
  divides by zero ends in \<open>NonFinite\<close>, so that no theorem rests on the value HOL
  gives to \<open>x / 0\<close>.
\<close>

datatype error = ValueError | InvalidArgumentError | NonFinite

definition raises :: "error + 'a \<Rightarrow> bool" where
  "raises r \<longleftrightarrow> r = Inl ValueError \<or> r = Inl InvalidArgumentError"

definition ebind :: "error + 'a \<Rightarrow> ('a \<Rightarrow> error + 'b) \<Rightarrow> error + 'b" where
  "ebind m f = (case m of Inl e \<Rightarrow> Inl e | Inr x \<Rightarrow> f x)"

subsection \<open>Row-major addressing\<close>

fun ravel :: "nat list \<Rightarrow> nat list \<Rightarrow> nat" where
  "ravel (d # ds) (i # is) = i * prod_list ds + ravel ds is"
| "ravel _ _ = 0"

fun unravel :: "nat list \<Rightarrow> nat \<Rightarrow> nat list" where
  "unravel [] n = []"
| "unravel (d # ds) n = (n div prod_list ds) # unravel ds (n mod prod_list ds)"

definition valid_index :: "nat list \<Rightarrow> nat list \<Rightarrow> bool" where
  "valid_index shp idx \<longleftrightarrow> list_all2 (<) idx shp"

definition elem_at :: "tensor \<Rightarrow> nat list \<Rightarrow> real" where
  "elem_at t idx = elems t ! ravel (shape t) idx"

definition tabulate :: "nat list \<Rightarrow> (nat list \<Rightarrow> real) \<Rightarrow> tensor" where
  "tabulate shp f = \<lparr>shape = shp, elems = map (\<lambda>n. f (unravel shp n)) [0..<prod_list shp]\<rparr>"

definition scalar :: "real \<Rightarrow> tensor" where
  "scalar c = \<lparr>shape = [], elems = [c]\<rparr>"

subsection \<open>Broadcasting binary operations\<close>

text \<open>Shapes are aligned at the last axis; two extents are compatible when they are
  equal or one of them is 1 (NumPy broadcasting, which TensorFlow follows).\<close>

definition bdim :: "nat \<Rightarrow> nat \<Rightarrow> nat option" where
  "bdim a b = (if a = b then Some a else if a = 1 then Some b
               else if b = 1 then Some a else None)"

definition pad_shape :: "nat \<Rightarrow> nat list \<Rightarrow> nat list" where
  "pad_shape n s = replicate (n - length s) 1 @ s"

definition broadcast_shape :: "nat list \<Rightarrow> nat list \<Rightarrow> nat list option" where
  "broadcast_shape s1 s2 =
     (let n = max (length s1) (length s2)
      in those (map2 bdim (pad_shape n s1) (pad_shape n s2)))"

text \<open>The index into an operand for an index into the result: the leading axes the
  operand lacks are dropped, and an axis of extent 1 is read at position 0.\<close>

definition bsel :: "nat \<Rightarrow> nat \<Rightarrow> nat" where
  "bsel d i = (if d = 1 then 0 else i)"

definition bidx :: "nat list \<Rightarrow> nat list \<Rightarrow> nat list" where
  "bidx s idx = map2 bsel s (drop (length idx - length s) idx)"

definition binop :: "(real \<Rightarrow> real \<Rightarrow> real) \<Rightarrow> tensor \<Rightarrow> tensor \<Rightarrow> error + tensor" where
  "binop f a b =
     (case broadcast_shape (shape a) (shape b) of
        None \<Rightarrow> Inl ValueError
      | Some s \<Rightarrow> Inr (tabulate s (\<lambda>idx. f (elem_at a (bidx (shape a) idx))
                                          (elem_at b (bidx (shape b) idx)))))"

text \<open>Division, with the divisor broadcast the same way. No exception is raised for a
  zero divisor.\<close>

definition tf_divide :: "tensor \<Rightarrow> tensor \<Rightarrow> error + tensor" where
  "tf_divide a b =
     (case broadcast_shape (shape a) (shape b) of
        None \<Rightarrow> Inl ValueError
      | Some s \<Rightarrow>
          if prod_list s \<noteq> 0 \<and> list_ex (\<lambda>x. x = 0) (elems b) then Inl NonFinite
          else Inr (tabulate s (\<lambda>idx. elem_at a (bidx (shape a) idx) /
                                         elem_at b (bidx (shape b) idx))))"

definition tf_abs :: "tensor \<Rightarrow> tensor" where
  "tf_abs t = \<lparr>shape = shape t, elems = map abs (elems t)\<rparr>"

text \<open>\<open>tf.clip_by_value(t, lo, hi)\<close> is \<open>maximum(minimum(t, hi), lo)\<close>, and refuses
  bounds that would broadcast the result to another shape than that of \<open>t\<close>.\<close>

definition clip_by_value :: "tensor \<Rightarrow> tensor \<Rightarrow> tensor \<Rightarrow> error + tensor" where
  "clip_by_value t clip_value_min clip_value_max =
     ebind (binop min t clip_value_max) (\<lambda>t_min.
       if shape t_min \<noteq> shape t then Inl ValueError
       else ebind (binop max t_min clip_value_min) (\<lambda>t_max.
         if shape t_max \<noteq> shape t then Inl ValueError else Inr t_max))"

subsection \<open>Shape manipulation\<close>

text \<open>\<open>tf.tile(t, multiples)\<close> repeats \<open>t\<close> along every axis.\<close>

definition tile :: "tensor \<Rightarrow> nat list \<Rightarrow> error + tensor" where
  "tile t multiples =
     (if length multiples \<noteq> length (shape t) then Inl ValueError
      else Inr (tabulate (map2 (*) (shape t) multiples)
                  (\<lambda>idx. elem_at t (map2 (\<lambda>i d. i mod d) idx (shape t)))))"

definition reshape :: "tensor \<Rightarrow> nat list \<Rightarrow> error + tensor" where
  "reshape t s =
     (if prod_list s \<noteq> prod_list (shape t) then Inl ValueError
      else Inr \<lparr>shape = s, elems = elems t\<rparr>)"

text \<open>A Python list \<open>[t]\<close> handed to a TensorFlow operation is packed into a tensor
  with a new leading axis of extent 1.\<close>

definition pack1 :: "tensor \<Rightarrow> tensor" where
  "pack1 t = \<lparr>shape = 1 # shape t, elems = elems t\<rparr>"

text \<open>\<open>t[:, None]\<close> and \<open>t[:, None, :]\<close>: a new axis of extent 1 at position 1. The
  slices \<open>:\<close> must address existing axes.\<close>

definition getitem_all_new :: "tensor \<Rightarrow> error + tensor" where
  "getitem_all_new t =
     (case shape t of
        [] \<Rightarrow> Inl ValueError
      | d # ds \<Rightarrow> Inr \<lparr>shape = d # 1 # ds, elems = elems t\<rparr>)"

definition getitem_all_new_all :: "tensor \<Rightarrow> error + tensor" where
  "getitem_all_new_all t =
     (case shape t of
        d # d' # ds \<Rightarrow> Inr \<lparr>shape = d # 1 # d' # ds, elems = elems t\<rparr>
      | _ \<Rightarrow> Inl ValueError)"

text \<open>Slices and indices along the first axis: \<open>t[1:]\<close>, \<open>t[:-1]\<close>, \<open>t[0]\<close>,
  \<open>t[-1]\<close>. A scalar cannot be sliced, and an index outside a statically known extent
  is refused.\<close>

definition getitem_from1 :: "tensor \<Rightarrow> error + tensor" where
  "getitem_from1 t =
     (case shape t of
        [] \<Rightarrow> Inl ValueError
      | d # ds \<Rightarrow> Inr \<lparr>shape = (d - 1) # ds, elems = drop (prod_list ds) (elems t)\<rparr>)"

definition getitem_butlast :: "tensor \<Rightarrow> error + tensor" where
  "getitem_butlast t =
     (case shape t of
        [] \<Rightarrow> Inl ValueError
      | d # ds \<Rightarrow> Inr \<lparr>shape = (d - 1) # ds,
                       elems = take ((d - 1) * prod_list ds) (elems t)\<rparr>)"

definition getitem :: "tensor \<Rightarrow> int \<Rightarrow> error + tensor" where
  "getitem t i =
     (case shape t of
        [] \<Rightarrow> Inl ValueError
      | d # ds \<Rightarrow>
          (let j = (if i < 0 then int d + i else i)
           in if 0 \<le> j \<and> j < int d
              then Inr \<lparr>shape = ds,
                        elems = take (prod_list ds) (drop (nat j * prod_list ds) (elems t))\<rparr>
              else Inl ValueError))"

text \<open>\<open>tf.shape(t)[axis]\<close>.\<close>

definition shape_at :: "tensor \<Rightarrow> nat \<Rightarrow> error + nat" where
  "shape_at t axis = (if axis < length (shape t) then Inr (shape t ! axis) else Inl ValueError)"

subsection \<open>Reductions\<close>

definition reduce_sum :: "tensor \<Rightarrow> nat \<Rightarrow> error + tensor" where
  "reduce_sum t axis =
     (if axis \<ge> length (shape t) then Inl ValueError
      else Inr (tabulate (take axis (shape t) @ drop (Suc axis) (shape t))
                  (\<lambda>idx. \<Sum>k\<leftarrow>[0..<shape t ! axis].
                            elem_at t (take axis idx @ [k] @ drop axis idx))))"

definition reduce_all :: "(real \<Rightarrow> bool) \<Rightarrow> tensor \<Rightarrow> bool" where
  "reduce_all p t = list_all p (elems t)"

section \<open>The projection of a distribution onto a support\<close>

text \<open>
  \<open>project_distribution\<close>, statement by statement. All shapes are statically known
  in the model, so \<open>assert_is_compatible_with\<close> is equality of shapes. The entries of
  \<open>validate_deps\<close> are the conditions of the \<open>tf.Assert\<close> operations; the body
  under \<open>tf.control_dependencies\<close> runs only when all of them hold.

  The function is given in two parts, so that its local \<open>inner_prod\<close> (the mass that
  source atom \<open>i\<close> of a row gives to target atom \<open>j\<close>) can be named in a theorem:
  \<open>project_distribution_inner_prod\<close> is the body up to \<open>inner_prod\<close>, which it returns
  with \<open>batch_size\<close> and \<open>num_dims\<close>, and \<open>project_distribution\<close> adds the last
  two statements.
\<close>

definition project_distribution_inner_prod ::
  "tensor \<Rightarrow> tensor \<Rightarrow> tensor \<Rightarrow> bool \<Rightarrow> error + tensor \<times> nat \<times> nat" where
  "project_distribution_inner_prod supports weights target_support validate_args =
     ebind (getitem_from1 target_support) (\<lambda>ts_from1.
     ebind (getitem_butlast target_support) (\<lambda>ts_butlast.
     ebind (binop (-) ts_from1 ts_butlast) (\<lambda>target_support_deltas.
     ebind (getitem target_support_deltas 0) (\<lambda>delta_z.
     if shape supports \<noteq> shape weights then Inl ValueError else
     ebind (getitem supports 0) (\<lambda>supports_0.
     if shape supports_0 \<noteq> shape target_support then Inl ValueError else
     if length (shape target_support) \<noteq> 1 then Inl ValueError else
     ebind (if validate_args
            then ebind (shape_at supports 1) (\<lambda>supports_dim1.
                 Inr [shape supports = shape weights,
                      list_all (\<lambda>d. supports_dim1 = d) (shape target_support),
                      length (shape target_support) = 1,
                      reduce_all (\<lambda>d. d > 0) target_support_deltas,
                      reduce_all (\<lambda>d. d = elem_at delta_z []) target_support_deltas])
            else Inr []) (\<lambda>validate_deps.
     if \<not> list_all (\<lambda>c. c) validate_deps then Inl InvalidArgumentError else
     ebind (getitem target_support 0) (\<lambda>v_min.
     ebind (getitem target_support (- 1)) (\<lambda>v_max.
     ebind (shape_at supports 0) (\<lambda>batch_size.
     ebind (shape_at target_support 0) (\<lambda>num_dims.
     ebind (clip_by_value supports v_min v_max) (\<lambda>clipped.
     ebind (getitem_all_new_all clipped) (\<lambda>clipped_support.
     ebind (tile (pack1 clipped_support) [1, 1, num_dims, 1]) (\<lambda>tiled_support.
     ebind (getitem_all_new target_support) (\<lambda>target_support_col.
     ebind (tile target_support_col [batch_size, 1]) (\<lambda>tiled_target_support.
     ebind (reshape tiled_target_support [batch_size, num_dims, 1])
       (\<lambda>reshaped_target_support.
     ebind (binop (-) tiled_support reshaped_target_support) (\<lambda>difference.
     let numerator = tf_abs difference in
     ebind (tf_divide numerator delta_z) (\<lambda>ratio.
     ebind (binop (-) (scalar 1) ratio) (\<lambda>quotient.
     ebind (clip_by_value quotient (scalar 0) (scalar 1)) (\<lambda>clipped_quotient.
     ebind (getitem_all_new_all weights) (\<lambda>weights_3.
     ebind (binop (*) clipped_quotient weights_3) (\<lambda>inner_prod.
     Inr (inner_prod, batch_size, num_dims)))))))))))))))))))))))"

definition project_distribution ::
  "tensor \<Rightarrow> tensor \<Rightarrow> tensor \<Rightarrow> bool \<Rightarrow> error + tensor" where
  "project_distribution supports weights target_support validate_args =
     ebind (project_distribution_inner_prod supports weights target_support validate_args)
       (\<lambda>(inner_prod, batch_size, num_dims).
     ebind (reduce_sum inner_prod 3) (\<lambda>projection.
     reshape projection [batch_size, num_dims]))"

section \<open>The specification of the projection\<close>

text \<open>The specification's own words for the projection (its section 4.1): values are
  clamped into an interval, and the overlap weight of a source value with target atom
  \<open>j\<close> is the tent kernel of their distance in units of \<open>delta_z\<close>.\<close>

definition clamp :: "real \<Rightarrow> real \<Rightarrow> real \<Rightarrow> real" where
  "clamp x lo hi = max lo (min x hi)"

definition overlap_weight :: "tensor \<Rightarrow> real \<Rightarrow> nat \<Rightarrow> real" where
  "overlap_weight target_support s j =
     (let v_min = elem_at target_support [0];
          v_max = elem_at target_support [length (elems target_support) - 1];
          delta_z = elem_at target_support [1] - elem_at target_support [0];
          clipped_support = clamp s v_min v_max
      in clamp (1 - \<bar>clipped_support - elem_at target_support [j]\<bar> / delta_z) 0 1)"

text \<open>Inputs of the shapes the function is documented for: \<open>supports\<close> and
  \<open>weights\<close> of shape \<open>(batch_size, num_dims)\<close>, \<open>target_support\<close> of shape
  \<open>(num_dims)\<close>, at least one row and at least two atoms.\<close>

definition well_shaped :: "tensor \<Rightarrow> tensor \<Rightarrow> tensor \<Rightarrow> nat \<Rightarrow> nat \<Rightarrow> bool" where
  "well_shaped supports weights target_support B K \<longleftrightarrow>
     wf_tensor supports \<and> shape supports = [B, K] \<and>
     wf_tensor weights \<and> shape weights = [B, K] \<and>
     wf_tensor target_support \<and> shape target_support = [K] \<and> 0 < B \<and> 2 \<le> K"

definition strictly_increasing :: "real list \<Rightarrow> bool" where
  "strictly_increasing xs \<longleftrightarrow> sorted_wrt (<) xs"

definition uniformly_spaced :: "real list \<Rightarrow> bool" where
  "uniformly_spaced xs \<longleftrightarrow>
     list_all (\<lambda>i. xs ! Suc i - xs ! i = xs ! 1 - xs ! 0) [0..<length xs - 1]"

definition valid_target_support :: "tensor \<Rightarrow> bool" where
  "valid_target_support t \<longleftrightarrow> strictly_increasing (elems t) \<and> uniformly_spaced (elems t)"

text \<open>The running example of the docstring.\<close>

definition example_supports :: tensor where
  "example_supports = \<lparr>shape = [2, 5], elems = [0, 2, 4, 6, 8, 1, 3, 4, 5, 6]\<rparr>"

definition example_weights :: tensor where
  "example_weights = \<lparr>shape = [2, 5],
     elems = [1/10, 6/10, 1/10, 1/10, 1/10, 1/10, 2/10, 5/10, 1/10, 1/10]\<rparr>"

definition example_target_support :: tensor where
  "example_target_support = \<lparr>shape = [5], elems = [4, 5, 6, 7, 8]\<rparr>"

definition example_identity_supports :: tensor where
  "example_identity_supports = \<lparr>shape = [2, 5], elems = [4, 5, 6, 7, 8, 1, 3, 4, 5, 6]\<rparr>"

definition degenerate_supports :: tensor where
  "degenerate_supports = \<lparr>shape = [1, 2], elems = [4, 4]\<rparr>"

definition degenerate_weights :: tensor where
  "degenerate_weights = \<lparr>shape = [1, 2], elems = [1, 1]\<rparr>"

definition degenerate_target_support :: tensor where
  "degenerate_target_support = \<lparr>shape = [2], elems = [4, 4]\<rparr>"

definition mismatched_weights :: tensor where
  "mismatched_weights = \<lparr>shape = [2, 4], elems = [1, 1, 1, 1, 1, 1, 1, 1]\<rparr>"

definition rank2_target_support :: tensor where
  "rank2_target_support = \<lparr>shape = [5, 1], elems = [4, 5, 6, 7, 8]\<rparr>"

definition malformed_target_support :: tensor where
  "malformed_target_support = \<lparr>shape = [5], elems = [4, 5, 6, 7, 9]\<rparr>"

section \<open>The Bellman target of the loss\<close>

subsection \<open>Further tensor operations\<close>

text \<open>\<open>t[:, :-1]\<close>: the whole first axis, the second axis without its last position.\<close>

definition getitem_all_butlast :: "tensor \<Rightarrow> error + tensor" where
  "getitem_all_butlast t =
     (case shape t of
        d # d' # ds \<Rightarrow> Inr (tabulate (d # (d' - 1) # ds) (\<lambda>idx. elem_at t idx))
      | _ \<Rightarrow> Inl ValueError)"

text \<open>\<open>tf.squeeze(t, [1])\<close> removes the second axis, which must have extent 1.\<close>

definition squeeze1 :: "tensor \<Rightarrow> error + tensor" where
  "squeeze1 t =
     (case shape t of
        d # d' # ds \<Rightarrow> if d' = 1 then Inr \<lparr>shape = d # ds, elems = elems t\<rparr> else Inl ValueError
      | _ \<Rightarrow> Inl ValueError)"

definition zeros :: "nat list \<Rightarrow> tensor" where
  "zeros s = tabulate s (\<lambda>idx. 0)"

definition reduce_prod :: "tensor \<Rightarrow> nat \<Rightarrow> error + tensor" where
  "reduce_prod t axis =
     (if axis \<ge> length (shape t) then Inl ValueError
      else Inr (tabulate (take axis (shape t) @ drop (Suc axis) (shape t))
                  (\<lambda>idx. \<Prod>k\<leftarrow>[0..<shape t ! axis].
                            elem_at t (take axis idx @ [k] @ drop axis idx))))"

subsection \<open>The support of the target\<close>

text \<open>
  Modelled from the spec: \<open>value_ops.discounted_return\<close>, the n-step return accumulator
  that \<open>_loss\<close> calls (it is not part of this file), with the flags fixed as
  \<open>_loss\<close> fixes them (batch-major, final return only). For rewards and discounts of
  shape \<open>[batch, T]\<close> and a final value of shape \<open>[batch]\<close> it is the accumulated
  discounted reward of each row: from the final value backwards, each step adds its
  reward to the return so far multiplied by its discount.
\<close>

definition discounted_return :: "tensor \<Rightarrow> tensor \<Rightarrow> tensor \<Rightarrow> error + tensor" where
  "discounted_return rewards discounts final_value =
     (case shape rewards of
        [B, T] \<Rightarrow>
          if shape discounts \<noteq> [B, T] \<or> shape final_value \<noteq> [B] then Inl ValueError
          else Inr (tabulate [B]
                 (\<lambda>idx. foldr (\<lambda>t acc. elem_at rewards (idx @ [t])
                                         + elem_at discounts (idx @ [t]) * acc)
                           [0..<T] (elem_at final_value idx)))
      | _ \<Rightarrow> Inl ValueError)"

text \<open>
  Modelled from the spec: the transition extraction \<open>_experience_to_transitions\<close>
  (inherited by the agent, not part of this file), as far as the reward and the
  discount of \<open>next_time_steps\<close> go. The last step of a window carries dummy values for
  the reward and the discount, so the next time steps take them from the steps before
  it; a window of two steps, the one of the 1-step update, leaves a single step, and its
  time axis is removed.
\<close>

definition experience_to_next_time_steps :: "tensor \<Rightarrow> error + tensor" where
  "experience_to_next_time_steps x =
     ebind (getitem_all_butlast x) (\<lambda>y.
       if shape y ! 1 = 1 then squeeze1 y else Inr y)"

text \<open>
  The part of \<open>_loss\<close> that builds \<open>target_support\<close>. \<open>batch_size\<close> is the first
  extent of the logits of the network, \<open>support\<close> and \<open>num_atoms\<close> are the
  attributes of the agent. The two branches of \<open>if self._n_step_update == 1\<close> are
  given as functions of their own: the first reads the reward and the discount of
  \<open>next_time_steps\<close>, the second those of \<open>experience\<close>.
\<close>

definition tiled_support :: "tensor \<Rightarrow> nat \<Rightarrow> nat \<Rightarrow> error + tensor" where
  "tiled_support support batch_size num_atoms =
     ebind (tile support [batch_size]) (\<lambda>tiled.
     reshape tiled [batch_size, num_atoms])"

definition target_support_1_step ::
    "tensor \<Rightarrow> tensor \<Rightarrow> tensor \<Rightarrow> real \<Rightarrow> real \<Rightarrow> error + tensor" where
  "target_support_1_step next_reward next_discount tiled gamma reward_scale_factor =
     ebind (if length (shape next_discount) = 1 then getitem_all_new next_discount
            else Inr next_discount) (\<lambda>discount.
     ebind (binop (*) discount tiled) (\<lambda>next_value_term.
     ebind (if length (shape next_reward) = 1 then getitem_all_new next_reward
            else Inr next_reward) (\<lambda>reward.
     ebind (binop (*) (scalar reward_scale_factor) reward) (\<lambda>reward_term.
     ebind (binop (*) (scalar gamma) next_value_term) (\<lambda>discounted_value_term.
     binop (+) reward_term discounted_value_term)))))"

definition target_support_n_step ::
    "tensor \<Rightarrow> tensor \<Rightarrow> tensor \<Rightarrow> real \<Rightarrow> real \<Rightarrow> nat \<Rightarrow> error + tensor" where
  "target_support_n_step experience_reward experience_discount tiled gamma
       reward_scale_factor batch_size =
     ebind (getitem_all_butlast experience_reward) (\<lambda>reward_butlast.
     ebind (binop (*) (scalar reward_scale_factor) reward_butlast) (\<lambda>rewards.
     ebind (getitem_all_butlast experience_discount) (\<lambda>discount_butlast.
     ebind (binop (*) (scalar gamma) discount_butlast) (\<lambda>discounts.
     ebind (discounted_return rewards discounts (zeros [batch_size])) (\<lambda>discounted_returns.
     ebind (getitem_all_new discounted_returns) (\<lambda>discounted_returns.
     ebind (reduce_prod discounts 1) (\<lambda>final_value_discount.
     ebind (getitem_all_new final_value_discount) (\<lambda>final_value_discount.
     ebind (binop (*) final_value_discount tiled) (\<lambda>final_value_term.
     binop (+) discounted_returns final_value_term)))))))))"

definition loss_target_support ::
    "nat \<Rightarrow> tensor \<Rightarrow> tensor \<Rightarrow> tensor \<Rightarrow> nat \<Rightarrow> real \<Rightarrow> real \<Rightarrow> nat \<Rightarrow> error + tensor" where
  "loss_target_support n_step_update experience_reward experience_discount support num_atoms
       gamma reward_scale_factor batch_size =
     ebind (tiled_support support batch_size num_atoms) (\<lambda>tiled.
     if n_step_update = 1 then
       ebind (experience_to_next_time_steps experience_discount) (\<lambda>next_discount.
       ebind (experience_to_next_time_steps experience_reward) (\<lambda>next_reward.
       target_support_1_step next_reward next_discount tiled gamma reward_scale_factor))
     else
       target_support_n_step experience_reward experience_discount tiled gamma
         reward_scale_factor batch_size)"

definition example_reward :: tensor where
  "example_reward = \<lparr>shape = [2, 2], elems = [1, 0, 3, 0]\<rparr>"

definition example_discount :: tensor where
  "example_discount = \<lparr>shape = [2, 2], elems = [1, 1, 0, 1]\<rparr>"

definition example_support :: tensor where
  "example_support = \<lparr>shape = [3], elems = [-1, 0, 1]\<rparr>"

section \<open>Facts about tensors\<close>

lemma ebind_simps [simp]:
  "ebind (Inr x) f = f x"
  "ebind (Inl e) f = Inl e"
  by (simp_all add: ebind_def)

lemma ravel_less:
  "list_all2 (<) idx shp \<Longrightarrow> ravel shp idx < prod_list shp"
proof (induction idx shp rule: list_all2_induct)
  case Nil
  then show ?case by simp
next
  case (Cons i idx d shp)
  have "i * prod_list shp + ravel shp idx < i * prod_list shp + prod_list shp"
    using Cons.IH by simp
  also have "\<dots> = Suc i * prod_list shp" by simp
  also have "\<dots> \<le> d * prod_list shp"
    using Cons.hyps(1) by (intro mult_le_mono1) simp
  finally show ?case by simp
qed

lemma unravel_ravel:
  "list_all2 (<) idx shp \<Longrightarrow> unravel shp (ravel shp idx) = idx"
proof (induction idx shp rule: list_all2_induct)
  case Nil
  then show ?case by simp
next
  case (Cons i idx d shp)
  have r: "ravel shp idx < prod_list shp" using Cons.hyps(2) by (rule ravel_less)
  then show ?case using Cons.IH by simp
qed

lemma elem_at_tabulate:
  assumes "valid_index shp idx"
  shows "elem_at (tabulate shp f) idx = f idx"
proof -
  have l: "list_all2 (<) idx shp" using assms by (simp add: valid_index_def)
  have "ravel shp idx < prod_list shp" using l by (rule ravel_less)
  then show ?thesis
    by (simp add: elem_at_def tabulate_def unravel_ravel [OF l])
qed

lemma shape_tabulate [simp]: "shape (tabulate shp f) = shp"
  by (simp add: tabulate_def)

lemma wf_tabulate [simp]: "wf_tensor (tabulate shp f)"
  by (simp add: wf_tensor_def tabulate_def)

lemma valid_index_Nil [simp]: "valid_index [] idx \<longleftrightarrow> idx = []"
  by (simp add: valid_index_def)

lemma valid_index_Cons_Cons [simp]:
  "valid_index (d # ds) (i # is) \<longleftrightarrow> i < d \<and> valid_index ds is"
  by (simp add: valid_index_def)

lemma valid_index_Cons:
  "valid_index (d # ds) idx \<longleftrightarrow> (\<exists>i is. idx = i # is \<and> i < d \<and> valid_index ds is)"
  by (auto simp: valid_index_def list_all2_Cons2)

lemma valid_index_length: "valid_index shp idx \<Longrightarrow> length idx = length shp"
  by (simp add: valid_index_def list_all2_lengthD)

lemma ravel_unravel:
  "n < prod_list shp \<Longrightarrow> valid_index shp (unravel shp n) \<and> ravel shp (unravel shp n) = n"
proof (induction shp arbitrary: n)
  case Nil
  then show ?case by simp
next
  case (Cons d ds)
  have pos: "0 < prod_list ds"
    using Cons.prems by (cases "prod_list ds = 0") simp_all
  have "n div prod_list ds < d"
    using Cons.prems pos by (simp add: less_mult_imp_div_less mult.commute)
  moreover have "n mod prod_list ds < prod_list ds" using pos by simp
  ultimately show ?case using Cons.IH by simp
qed

lemma reduce_all_iff:
  assumes "wf_tensor t"
  shows "reduce_all p t \<longleftrightarrow> (\<forall>idx. valid_index (shape t) idx \<longrightarrow> p (elem_at t idx))"
proof
  assume a: "reduce_all p t"
  show "\<forall>idx. valid_index (shape t) idx \<longrightarrow> p (elem_at t idx)"
  proof (intro allI impI)
    fix idx assume v: "valid_index (shape t) idx"
    then have "ravel (shape t) idx < length (elems t)"
      using assms ravel_less by (simp add: valid_index_def wf_tensor_def)
    then show "p (elem_at t idx)"
      using a by (simp add: reduce_all_def elem_at_def list_all_length)
  qed
next
  assume a: "\<forall>idx. valid_index (shape t) idx \<longrightarrow> p (elem_at t idx)"
  show "reduce_all p t"
    unfolding reduce_all_def list_all_length
  proof (intro allI impI)
    fix n assume "n < length (elems t)"
    then have n: "n < prod_list (shape t)" using assms by (simp add: wf_tensor_def)
    from ravel_unravel [OF n] a have "p (elem_at t (unravel (shape t) n))" by blast
    then show "p (elems t ! n)" using ravel_unravel [OF n] by (simp add: elem_at_def)
  qed
qed

lemma bsel_one [simp]: "bsel (Suc 0) i = 0"
  by (simp add: bsel_def)

lemma bsel_less: "i < d \<Longrightarrow> bsel d i = i"
  by (simp add: bsel_def)

lemma bdim_same [simp]: "bdim d d = Some d"
  by (simp add: bdim_def)

lemma bdim_one_left [simp]: "bdim (Suc 0) d = Some d"
  by (simp add: bdim_def)

lemma bdim_one_right [simp]: "bdim d (Suc 0) = Some d"
  by (simp add: bdim_def)

lemma binop_spec:
  assumes "broadcast_shape (shape a) (shape b) = Some s"
  shows "\<exists>r. binop f a b = Inr r \<and> shape r = s \<and> wf_tensor r \<and>
           (\<forall>idx. valid_index s idx \<longrightarrow>
              elem_at r idx = f (elem_at a (bidx (shape a) idx)) (elem_at b (bidx (shape b) idx)))"
  using assms by (simp add: binop_def elem_at_tabulate)

lemma tf_divide_spec:
  assumes "broadcast_shape (shape a) (shape b) = Some s"
    and "\<not> list_ex (\<lambda>x. x = 0) (elems b)"
  shows "\<exists>r. tf_divide a b = Inr r \<and> shape r = s \<and> wf_tensor r \<and>
           (\<forall>idx. valid_index s idx \<longrightarrow>
              elem_at r idx = elem_at a (bidx (shape a) idx) / elem_at b (bidx (shape b) idx))"
  using assms by (simp add: tf_divide_def elem_at_tabulate)

lemma tile_spec:
  assumes "length multiples = length (shape t)"
  shows "\<exists>r. tile t multiples = Inr r \<and> shape r = map2 (*) (shape t) multiples \<and> wf_tensor r \<and>
           (\<forall>idx. valid_index (map2 (*) (shape t) multiples) idx \<longrightarrow>
              elem_at r idx = elem_at t (map2 (\<lambda>i d. i mod d) idx (shape t)))"
  using assms by (simp add: tile_def elem_at_tabulate)

lemma reduce_sum_spec:
  assumes "axis < length (shape t)"
  shows "\<exists>r. reduce_sum t axis = Inr r \<and>
           shape r = take axis (shape t) @ drop (Suc axis) (shape t) \<and> wf_tensor r \<and>
           (\<forall>idx. valid_index (take axis (shape t) @ drop (Suc axis) (shape t)) idx \<longrightarrow>
              elem_at r idx = (\<Sum>k\<leftarrow>[0..<shape t ! axis]. elem_at t (take axis idx @ [k] @ drop axis idx)))"
  using assms by (simp add: reduce_sum_def elem_at_tabulate)

lemma tf_abs_simps [simp]:
  "shape (tf_abs t) = shape t"
  "wf_tensor (tf_abs t) = wf_tensor t"
  by (simp_all add: tf_abs_def wf_tensor_def)

lemma elem_at_tf_abs:
  "wf_tensor t \<Longrightarrow> valid_index (shape t) idx \<Longrightarrow> elem_at (tf_abs t) idx = \<bar>elem_at t idx\<bar>"
  using ravel_less [of idx "shape t"]
  by (simp add: tf_abs_def elem_at_def wf_tensor_def valid_index_def)

lemma those_map_Some: "those (map Some xs) = Some xs"
  by (induction xs) simp_all

lemma bdim_replicate_right:
  "map2 bdim s (replicate (length s) (Suc 0)) = map Some s"
  by (induction s) simp_all

lemma bdim_replicate_left:
  "map2 bdim (replicate (length s) (Suc 0)) s = map Some s"
  by (induction s) simp_all

lemma bdim_zip_same: "map2 bdim s s = map Some s"
  by (induction s) simp_all

lemma broadcast_shape_scalar_right [simp]: "broadcast_shape s [] = Some s"
  by (simp add: broadcast_shape_def pad_shape_def bdim_replicate_right those_map_Some)

lemma broadcast_shape_scalar_left [simp]: "broadcast_shape [] s = Some s"
  by (simp add: broadcast_shape_def pad_shape_def bdim_replicate_left those_map_Some)

lemma broadcast_shape_same [simp]: "broadcast_shape s s = Some s"
  by (simp add: broadcast_shape_def pad_shape_def bdim_zip_same those_map_Some)

lemma bidx_Nil [simp]: "bidx [] idx = []"
  by (simp add: bidx_def)

lemma map2_bsel_same: "list_all2 (<) idx s \<Longrightarrow> map2 bsel s idx = idx"
  by (induction idx s rule: list_all2_induct) (simp_all add: bsel_less)

lemma bidx_same: "valid_index s idx \<Longrightarrow> bidx s idx = idx"
  by (simp add: valid_index_def bidx_def map2_bsel_same list_all2_lengthD)

lemma clip_by_value_spec:
  assumes "shape lo = []" "shape hi = []"
  shows "\<exists>r. clip_by_value t lo hi = Inr r \<and> shape r = shape t \<and> wf_tensor r \<and>
           (\<forall>idx. valid_index (shape t) idx \<longrightarrow>
              elem_at r idx = max (min (elem_at t idx) (elem_at hi [])) (elem_at lo []))"
proof -
  have "broadcast_shape (shape t) (shape hi) = Some (shape t)"
    using assms by simp
  from binop_spec [OF this, of min] obtain t_min where
    m: "binop min t hi = Inr t_min" "shape t_min = shape t"
       "\<forall>idx. valid_index (shape t) idx \<longrightarrow>
          elem_at t_min idx = min (elem_at t (bidx (shape t) idx)) (elem_at hi (bidx (shape hi) idx))"
    by blast
  have "broadcast_shape (shape t_min) (shape lo) = Some (shape t)"
    using assms m(2) by simp
  from binop_spec [OF this, of max] obtain t_max where
    x: "binop max t_min lo = Inr t_max" "shape t_max = shape t" "wf_tensor t_max"
       "\<forall>idx. valid_index (shape t) idx \<longrightarrow>
          elem_at t_max idx = max (elem_at t_min (bidx (shape t_min) idx)) (elem_at lo (bidx (shape lo) idx))"
    by blast
  have "clip_by_value t lo hi = Inr t_max"
    using m(1,2) x(1,2) by (simp add: clip_by_value_def)
  moreover have "\<forall>idx. valid_index (shape t) idx \<longrightarrow>
      elem_at t_max idx = max (min (elem_at t idx) (elem_at hi [])) (elem_at lo [])"
    using m(2,3) x(4) assms by (simp add: bidx_same)
  ultimately show ?thesis using x(2,3) by blast
qed

lemma elem_at_vec [simp]: "shape t = [n] \<Longrightarrow> elem_at t [i] = elems t ! i"
  by (simp add: elem_at_def)

lemma elem_at_mat: "shape t = [m, n] \<Longrightarrow> elem_at t [i, j] = elems t ! (i * n + j)"
  by (simp add: elem_at_def)

lemma elem_at_scalar [simp]: "shape t = [] \<Longrightarrow> elem_at t [] = elems t ! 0"
  by (simp add: elem_at_def)

lemma scalar_simps [simp]:
  "shape (scalar c) = []" "elems (scalar c) = [c]" "wf_tensor (scalar c)"
  by (simp_all add: scalar_def wf_tensor_def)

lemma flat_index_less:
  fixes b j B K :: nat
  assumes "b < B" "j < K"
  shows "b * K + j < B * K"
proof -
  have "b * K + j < b * K + K" using assms by simp
  also have "\<dots> = Suc b * K" by simp
  also have "\<dots> \<le> B * K" using assms by (intro mult_le_mono1) simp
  finally show ?thesis .
qed

text \<open>The differences of neighbouring atoms and the first of them.\<close>

lemma target_support_deltas:
  assumes wfT: "wf_tensor target_support" and shT: "shape target_support = [K]"
    and K: "2 \<le> K"
  shows "\<exists>ts_from1 ts_butlast deltas delta_z.
      getitem_from1 target_support = Inr ts_from1 \<and>
      getitem_butlast target_support = Inr ts_butlast \<and>
      binop (-) ts_from1 ts_butlast = Inr deltas \<and>
      getitem deltas 0 = Inr delta_z \<and>
      shape deltas = [K - 1] \<and> wf_tensor deltas \<and>
      (\<forall>i. Suc i < K \<longrightarrow> elem_at deltas [i] = elem_at target_support [Suc i] - elem_at target_support [i]) \<and>
      shape delta_z = [] \<and>
      elems delta_z = [elem_at target_support [1] - elem_at target_support [0]]"
proof -
  have len: "length (elems target_support) = K"
    using wfT shT by (simp add: wf_tensor_def)
  define ts_from1 where "ts_from1 = \<lparr>shape = [K - 1], elems = drop 1 (elems target_support)\<rparr>"
  define ts_butlast where "ts_butlast = \<lparr>shape = [K - 1], elems = take (K - 1) (elems target_support)\<rparr>"
  have a: "getitem_from1 target_support = Inr ts_from1"
    by (simp add: getitem_from1_def shT ts_from1_def)
  have b: "getitem_butlast target_support = Inr ts_butlast"
    by (simp add: getitem_butlast_def shT ts_butlast_def)
  have "broadcast_shape (shape ts_from1) (shape ts_butlast) = Some [K - 1]"
    by (simp add: ts_from1_def ts_butlast_def)
  from binop_spec [OF this, of "(-)"] obtain deltas where
    d: "binop (-) ts_from1 ts_butlast = Inr deltas" "shape deltas = [K - 1]" "wf_tensor deltas"
       "\<forall>idx. valid_index [K - 1] idx \<longrightarrow>
          elem_at deltas idx = elem_at ts_from1 (bidx (shape ts_from1) idx)
                             - elem_at ts_butlast (bidx (shape ts_butlast) idx)"
    by blast
  have d_at: "elem_at deltas [i] = elem_at target_support [Suc i] - elem_at target_support [i]"
    if "Suc i < K" for i
  proof -
    have v: "valid_index [K - 1] [i]" using that by simp
    have "bidx [K - 1] [i] = [i]" using v by (rule bidx_same)
    then have "elem_at deltas [i] = elem_at ts_from1 [i] - elem_at ts_butlast [i]"
      using d(4) v by (simp add: ts_from1_def ts_butlast_def)
    also have "elem_at ts_from1 [i] = elems target_support ! Suc i"
      using that len by (simp add: ts_from1_def)
    also have "elem_at ts_butlast [i] = elems target_support ! i"
      using that len by (simp add: ts_butlast_def)
    finally show ?thesis using shT by simp
  qed
  have dlen: "length (elems deltas) = K - 1"
    using d(2,3) by (simp add: wf_tensor_def)
  define delta_z where "delta_z = \<lparr>shape = [], elems = take 1 (elems deltas)\<rparr>"
  have g: "getitem deltas 0 = Inr delta_z"
    using K by (simp add: getitem_def d(2) delta_z_def)
  have "take 1 (elems deltas) = [elems deltas ! 0]"
    using dlen K by (cases "elems deltas") simp_all
  also have "elems deltas ! 0 = elem_at deltas [0]" using d(2) by simp
  also have "\<dots> = elem_at target_support [1] - elem_at target_support [0]"
    using d_at [of 0] K by simp
  finally have dz: "elems delta_z = [elem_at target_support [1] - elem_at target_support [0]]"
    by (simp add: delta_z_def)
  show ?thesis
    using a b d(1,2,3) g d_at dz by (auto simp: delta_z_def)
qed

section \<open>What the projection computes\<close>

lemma take1_drop_nth: "n < length xs \<Longrightarrow> take (Suc 0) (drop n xs) = [xs ! n]"
  by (cases "drop n xs") (simp_all add: nth_via_drop)

lemma valid_index_vec: "valid_index [n] idx \<longleftrightarrow> (\<exists>i<n. idx = [i])"
  by (auto simp: valid_index_def list_all2_Cons2)

lemma reduce_all_vec:
  assumes "wf_tensor t" "shape t = [n]"
  shows "reduce_all p t \<longleftrightarrow> (\<forall>i<n. p (elem_at t [i]))"
  using assms(2) by (auto simp: reduce_all_iff [OF assms(1)] valid_index_vec)

lemma getitem_first_vec:
  assumes "wf_tensor t" "shape t = [K]" "0 < K"
  shows "getitem t 0 = Inr \<lparr>shape = [], elems = [elem_at t [0]]\<rparr>"
proof -
  have "length (elems t) = K" using assms by (simp add: wf_tensor_def)
  then have "take (Suc 0) (elems t) = [elems t ! 0]"
    using assms(3) take1_drop_nth [of 0 "elems t"] by simp
  then show ?thesis using assms by (simp add: getitem_def)
qed

lemma getitem_last_vec:
  assumes "wf_tensor t" "shape t = [K]" "0 < K"
  shows "getitem t (- 1) = Inr \<lparr>shape = [], elems = [elem_at t [K - 1]]\<rparr>"
proof -
  have l: "length (elems t) = K" using assms by (simp add: wf_tensor_def)
  have n: "nat (int K - 1) = K - 1" using assms by simp
  have "take (Suc 0) (drop (K - 1) (elems t)) = [elems t ! (K - 1)]"
    using l assms(3) by (intro take1_drop_nth) simp
  then show ?thesis using assms n by (simp add: getitem_def)
qed

lemma clipped_support_tiled:
  assumes wfC: "wf_tensor clipped" and shC: "shape clipped = [B, K]"
  shows "\<exists>cs tiled. getitem_all_new_all clipped = Inr cs \<and>
           tile (pack1 cs) [1, 1, K, 1] = Inr tiled \<and>
           shape tiled = [1, B, K, K] \<and> wf_tensor tiled \<and>
           (\<forall>b j i. b < B \<longrightarrow> j < K \<longrightarrow> i < K \<longrightarrow>
              elem_at tiled [0, b, j, i] = elem_at clipped [b, i])"
proof -
  define cs where "cs = \<lparr>shape = [B, 1, K], elems = elems clipped\<rparr>"
  have s7: "getitem_all_new_all clipped = Inr cs"
    by (simp add: getitem_all_new_all_def shC cs_def)
  have shp: "shape (pack1 cs) = [1, B, 1, K]"
    by (simp add: pack1_def cs_def)
  have "length [1, 1, K, 1] = length (shape (pack1 cs))"
    by (simp add: shp)
  from tile_spec [OF this] obtain tiled where
    t: "tile (pack1 cs) [1, 1, K, 1] = Inr tiled"
       "shape tiled = map2 (*) (shape (pack1 cs)) [1, 1, K, 1]" "wf_tensor tiled"
       "\<forall>idx. valid_index (map2 (*) (shape (pack1 cs)) [1, 1, K, 1]) idx \<longrightarrow>
          elem_at tiled idx
            = elem_at (pack1 cs) (map2 (\<lambda>i d. i mod d) idx (shape (pack1 cs)))"
    by blast
  have m: "map2 (*) (shape (pack1 cs)) [1, 1, K, 1] = [1, B, K, K]"
    by (simp add: shp)
  have t_at: "elem_at tiled [0, b, j, i] = elem_at clipped [b, i]"
    if "b < B" "j < K" "i < K" for b j i
  proof -
    have "valid_index [1, B, K, K] [0, b, j, i]" using that by simp
    then have "elem_at tiled [0, b, j, i] = elem_at (pack1 cs) [0, b, 0, i]"
      using t(4) that unfolding m by (simp add: shp)
    also have "\<dots> = elem_at clipped [b, i]"
      by (simp add: elem_at_def pack1_def cs_def shC)
    finally show ?thesis .
  qed
  show ?thesis using s7 t(1,2,3) t_at unfolding m by blast
qed

lemma reshaped_target_support:
  assumes wfT: "wf_tensor target_support" and shT: "shape target_support = [K]"
  shows "\<exists>col tiled r. getitem_all_new target_support = Inr col \<and>
           tile col [B, 1] = Inr tiled \<and>
           reshape tiled [B, K, 1] = Inr r \<and>
           shape r = [B, K, 1] \<and> wf_tensor r \<and>
           (\<forall>b j. b < B \<longrightarrow> j < K \<longrightarrow> elem_at r [b, j, 0] = elem_at target_support [j])"
proof -
  define col where "col = \<lparr>shape = [K, 1], elems = elems target_support\<rparr>"
  have a: "getitem_all_new target_support = Inr col"
    by (simp add: getitem_all_new_def shT col_def)
  have shp: "shape col = [K, 1]" by (simp add: col_def)
  have "length [B, 1] = length (shape col)" by (simp add: shp)
  from tile_spec [OF this] obtain tiled where
    t: "tile col [B, 1] = Inr tiled"
       "shape tiled = map2 (*) (shape col) [B, 1]" "wf_tensor tiled"
       "\<forall>idx. valid_index (map2 (*) (shape col) [B, 1]) idx \<longrightarrow>
          elem_at tiled idx = elem_at col (map2 (\<lambda>i d. i mod d) idx (shape col))"
    by blast
  have m: "map2 (*) (shape col) [B, 1] = [K * B, 1]" by (simp add: shp)
  define r where "r = \<lparr>shape = [B, K, 1], elems = elems tiled\<rparr>"
  have b: "reshape tiled [B, K, 1] = Inr r"
    using t(2) unfolding m by (simp add: reshape_def r_def mult.commute)
  have wfr: "wf_tensor r"
    using t(2,3) unfolding m by (simp add: wf_tensor_def r_def mult.commute)
  have r_at: "elem_at r [b, j, 0] = elem_at target_support [j]" if "b < B" "j < K" for b j
  proof -
    have lt: "b * K + j < K * B"
      using flat_index_less [OF that] by (simp add: mult.commute)
    have "elem_at r [b, j, 0] = elems tiled ! (b * K + j)"
      by (simp add: elem_at_def r_def)
    also have "\<dots> = elem_at tiled [b * K + j, 0]"
      using t(2) unfolding m by (simp add: elem_at_def)
    also have "\<dots> = elem_at col [(b * K + j) mod K, 0]"
      using t(4) lt unfolding m by (simp add: shp)
    also have "(b * K + j) mod K = j" using that by simp
    also have "elem_at col [j, 0] = elem_at target_support [j]"
      by (simp add: elem_at_def col_def shT)
    finally show ?thesis .
  qed
  show ?thesis using a t(1) b wfr r_at by (auto simp: r_def)
qed

lemma sum_list_cong_upt:
  "(\<And>i. i < n \<Longrightarrow> f i = g i) \<Longrightarrow> (\<Sum>i\<leftarrow>[0..<n]. f i) = (\<Sum>i\<leftarrow>[0..<n]. g i :: real)"
  by (rule arg_cong [where f = sum_list]) simp

lemma inner_prod_tail:
  assumes wfA: "wf_tensor tiled" and shA: "shape tiled = [1, B, K, K]"
    and wfR: "wf_tensor r" and shR: "shape r = [B, K, 1]"
    and shZ: "shape delta_z = []" and elZ: "elems delta_z = [dz]" and nz: "dz \<noteq> 0"
    and wfW: "wf_tensor weights" and shW: "shape weights = [B, K]"
  shows "\<exists>difference ratio quotient cq w3 inner.
      binop (-) tiled r = Inr difference \<and>
      tf_divide (tf_abs difference) delta_z = Inr ratio \<and>
      binop (-) (scalar 1) ratio = Inr quotient \<and>
      clip_by_value quotient (scalar 0) (scalar 1) = Inr cq \<and>
      getitem_all_new_all weights = Inr w3 \<and>
      binop (*) cq w3 = Inr inner \<and>
      shape inner = [1, B, K, K] \<and> wf_tensor inner \<and>
      (\<forall>b j i. b < B \<longrightarrow> j < K \<longrightarrow> i < K \<longrightarrow>
         elem_at inner [0, b, j, i] =
            max (min (1 - \<bar>elem_at tiled [0, b, j, i] - elem_at r [b, j, 0]\<bar> / dz) 1) 0
            * elem_at weights [b, i])"
proof -
  let ?s = "[1, B, K, K]"
  have "broadcast_shape (shape tiled) (shape r) = Some ?s"
    by (simp add: shA shR broadcast_shape_def pad_shape_def)
  from binop_spec [OF this, of "(-)"] obtain difference where
    d: "binop (-) tiled r = Inr difference" "shape difference = ?s" "wf_tensor difference"
       "\<forall>idx. valid_index ?s idx \<longrightarrow>
          elem_at difference idx = elem_at tiled (bidx (shape tiled) idx) - elem_at r (bidx (shape r) idx)"
    by blast
  have d_at: "elem_at difference [0, b, j, i] = elem_at tiled [0, b, j, i] - elem_at r [b, j, 0]"
    if "b < B" "j < K" "i < K" for b j i
    using d(4) that by (simp add: shA shR bidx_def bsel_less)
  have "broadcast_shape (shape (tf_abs difference)) (shape delta_z) = Some ?s"
    by (simp add: d(2) shZ)
  from tf_divide_spec [OF this] obtain ratio where
    q: "tf_divide (tf_abs difference) delta_z = Inr ratio" "shape ratio = ?s" "wf_tensor ratio"
       "\<forall>idx. valid_index ?s idx \<longrightarrow>
          elem_at ratio idx = elem_at (tf_abs difference) (bidx (shape (tf_abs difference)) idx)
                              / elem_at delta_z (bidx (shape delta_z) idx)"
    using nz by (auto simp: elZ)
  have q_at: "elem_at ratio idx = \<bar>elem_at difference idx\<bar> / dz" if "valid_index ?s idx" for idx
    using q(4) that d(2,3) by (simp add: bidx_same elem_at_tf_abs shZ elZ)
  have "broadcast_shape (shape (scalar 1)) (shape ratio) = Some ?s"
    by (simp add: q(2))
  from binop_spec [OF this, of "(-)"] obtain quotient where
    u: "binop (-) (scalar 1) ratio = Inr quotient" "shape quotient = ?s" "wf_tensor quotient"
       "\<forall>idx. valid_index ?s idx \<longrightarrow>
          elem_at quotient idx = elem_at (scalar 1) (bidx (shape (scalar 1)) idx)
                                 - elem_at ratio (bidx (shape ratio) idx)"
    by blast
  have u_at: "elem_at quotient idx = 1 - \<bar>elem_at difference idx\<bar> / dz"
    if "valid_index ?s idx" for idx
    using u(4) that q(2) q_at [OF that] by (simp add: bidx_same)
  from clip_by_value_spec [of "scalar 0" "scalar 1" quotient] obtain cq where
    c: "clip_by_value quotient (scalar 0) (scalar 1) = Inr cq" "shape cq = ?s" "wf_tensor cq"
       "\<forall>idx. valid_index ?s idx \<longrightarrow>
          elem_at cq idx = max (min (elem_at quotient idx) (elem_at (scalar 1) []))
                               (elem_at (scalar 0) [])"
    using u(2) by auto
  have c_at: "elem_at cq idx = max (min (1 - \<bar>elem_at difference idx\<bar> / dz) 1) 0"
    if "valid_index ?s idx" for idx
    using c(4) that u_at [OF that] by simp
  define w3 where "w3 = \<lparr>shape = [B, 1, K], elems = elems weights\<rparr>"
  have w: "getitem_all_new_all weights = Inr w3"
    by (simp add: getitem_all_new_all_def shW w3_def)
  have w_at: "elem_at w3 [b, 0, i] = elem_at weights [b, i]" for b i
    by (simp add: elem_at_def w3_def shW)
  have "broadcast_shape (shape cq) (shape w3) = Some ?s"
    by (simp add: c(2) w3_def broadcast_shape_def pad_shape_def)
  from binop_spec [OF this, of "(*)"] obtain inner where
    n: "binop (*) cq w3 = Inr inner" "shape inner = ?s" "wf_tensor inner"
       "\<forall>idx. valid_index ?s idx \<longrightarrow>
          elem_at inner idx = elem_at cq (bidx (shape cq) idx) * elem_at w3 (bidx (shape w3) idx)"
    by blast
  have n_at: "elem_at inner [0, b, j, i]
      = max (min (1 - \<bar>elem_at tiled [0, b, j, i] - elem_at r [b, j, 0]\<bar> / dz) 1) 0
        * elem_at weights [b, i]"
    if "b < B" "j < K" "i < K" for b j i
  proof -
    have v: "valid_index ?s [0, b, j, i]" using that by simp
    have "bidx (shape w3) [0, b, j, i] = [b, 0, i]"
      using that by (simp add: w3_def bidx_def bsel_less)
    then show ?thesis
      using n(4) v c(2) c_at [OF v] d_at [OF that] w_at by (simp add: bidx_same)
  qed
  with d(1) q(1) u(1) c(1) w n(1,2,3) show ?thesis by blast
qed

text \<open>The last two statements: the sum over the source atoms, and the final shape.\<close>

lemma reduce_reshape_inner:
  assumes shI: "shape inner = [1, B, K, K]"
  shows "\<exists>proj p. reduce_sum inner 3 = Inr proj \<and> reshape proj [B, K] = Inr p \<and>
      shape p = [B, K] \<and> wf_tensor p \<and>
      (\<forall>b j. b < B \<longrightarrow> j < K \<longrightarrow>
         elem_at p [b, j] = (\<Sum>i\<leftarrow>[0..<K]. elem_at inner [0, b, j, i]))"
proof -
  have "3 < length (shape inner)" by (simp add: shI)
  from reduce_sum_spec [OF this] obtain proj where
    p: "reduce_sum inner 3 = Inr proj"
       "shape proj = take 3 (shape inner) @ drop (Suc 3) (shape inner)" "wf_tensor proj"
       "\<forall>idx. valid_index (take 3 (shape inner) @ drop (Suc 3) (shape inner)) idx \<longrightarrow>
          elem_at proj idx
            = (\<Sum>k\<leftarrow>[0..<shape inner ! 3]. elem_at inner (take 3 idx @ [k] @ drop 3 idx))"
    by blast
  have shp: "take 3 (shape inner) @ drop (Suc 3) (shape inner) = [1, B, K]"
    by (simp add: shI)
  have p_at: "elem_at proj [0, b, j] = (\<Sum>k\<leftarrow>[0..<K]. elem_at inner [0, b, j, k])"
    if "b < B" "j < K" for b j
    using p(4) that unfolding shp by (simp add: shI)
  define res where "res = \<lparr>shape = [B, K], elems = elems proj\<rparr>"
  have e: "reshape proj [B, K] = Inr res"
    using p(2) unfolding shp by (simp add: reshape_def res_def)
  have wfres: "wf_tensor res"
    using p(2,3) unfolding shp by (simp add: wf_tensor_def res_def)
  have res_at: "elem_at res [b, j] = (\<Sum>i\<leftarrow>[0..<K]. elem_at inner [0, b, j, i])"
    if "b < B" "j < K" for b j
  proof -
    have "elem_at res [b, j] = elem_at proj [0, b, j]"
      using p(2) unfolding shp by (simp add: elem_at_def res_def)
    then show ?thesis using p_at [OF that] by simp
  qed
  have "shape res = [B, K]" by (simp add: res_def)
  with p(1) e wfres res_at show ?thesis by blast
qed

lemma inner_prod_run:
  assumes shS: "shape supports = [B, K]" and shW: "shape weights = [B, K]"
    and shT: "shape target_support = [K]"
    and s1: "getitem_from1 target_support = Inr ts_from1"
        "getitem_butlast target_support = Inr ts_butlast"
        "binop (-) ts_from1 ts_butlast = Inr deltas"
        "getitem deltas 0 = Inr delta_z"
    and s2: "getitem supports 0 = Inr supports_0" and sh0: "shape supports_0 = [K]"
    and v: "validate_args \<Longrightarrow> reduce_all (\<lambda>d. d > 0) deltas"
           "validate_args \<Longrightarrow> reduce_all (\<lambda>d. d = elem_at delta_z []) deltas"
    and s4: "getitem target_support 0 = Inr v_min"
    and s5: "getitem target_support (- 1) = Inr v_max"
    and c: "clip_by_value supports v_min v_max = Inr clipped"
    and t: "getitem_all_new_all clipped = Inr cs" "tile (pack1 cs) [1, 1, K, 1] = Inr tiled"
    and r: "getitem_all_new target_support = Inr col" "tile col [B, 1] = Inr tiled_ts"
       "reshape tiled_ts [B, K, 1] = Inr r"
    and n: "binop (-) tiled r = Inr difference"
       "tf_divide (tf_abs difference) delta_z = Inr ratio"
       "binop (-) (scalar 1) ratio = Inr quot"
       "clip_by_value quot (scalar 0) (scalar 1) = Inr cq"
       "getitem_all_new_all weights = Inr w3"
       "binop (*) cq w3 = Inr inner"
  shows "project_distribution_inner_prod supports weights target_support validate_args
      = Inr (inner, B, K)"
proof -
  have d: "shape_at supports 1 = Inr K" "shape_at supports 0 = Inr B"
      "shape_at target_support 0 = Inr K"
    by (simp_all add: shape_at_def shS shT)
  show ?thesis
    unfolding project_distribution_inner_prod_def s1 ebind_simps
    apply (simp only: shS shW s2 ebind_simps sh0 shT)
    apply (simp only: s4 s5 d c t r n ebind_simps Let_def)
    apply (insert v)
    apply auto
    done
qed

lemma inner_prod_char:
  assumes wfS: "wf_tensor supports" and shS: "shape supports = [B, K]"
    and wfW: "wf_tensor weights" and shW: "shape weights = [B, K]"
    and wfT: "wf_tensor target_support" and shT: "shape target_support = [K]"
    and B: "0 < B" and K: "2 \<le> K"
    and nz: "elem_at target_support [1] \<noteq> elem_at target_support [0]"
    and valid: "validate_args \<Longrightarrow> \<forall>i. Suc i < K \<longrightarrow>
        elem_at target_support [Suc i] - elem_at target_support [i] > 0 \<and>
        elem_at target_support [Suc i] - elem_at target_support [i]
          = elem_at target_support [1] - elem_at target_support [0]"
  shows "\<exists>inner. project_distribution_inner_prod supports weights target_support validate_args
          = Inr (inner, B, K) \<and>
      shape inner = [1, B, K, K] \<and> wf_tensor inner \<and>
      (\<forall>b j i. b < B \<longrightarrow> j < K \<longrightarrow> i < K \<longrightarrow>
         elem_at inner [0, b, j, i] =
              max (min (1 - \<bar>max (min (elem_at supports [b, i]) (elem_at target_support [K - 1]))
                                 (elem_at target_support [0])
                            - elem_at target_support [j]\<bar>
                         / (elem_at target_support [1] - elem_at target_support [0])) 1) 0
              * elem_at weights [b, i])"
proof -
  let ?dz = "elem_at target_support [1] - elem_at target_support [0]"
  let ?vmin = "elem_at target_support [0]"
  let ?vmax = "elem_at target_support [K - 1]"
  from target_support_deltas [OF wfT shT K] obtain ts_from1 ts_butlast deltas delta_z where
    s1: "getitem_from1 target_support = Inr ts_from1"
        "getitem_butlast target_support = Inr ts_butlast"
        "binop (-) ts_from1 ts_butlast = Inr deltas"
        "getitem deltas 0 = Inr delta_z"
    and dl: "shape deltas = [K - 1]" "wf_tensor deltas"
        "\<forall>i. Suc i < K \<longrightarrow> elem_at deltas [i] = elem_at target_support [Suc i] - elem_at target_support [i]"
    and dz: "shape delta_z = []" "elems delta_z = [?dz]"
    by blast
  define supports_0 where "supports_0 = \<lparr>shape = [K], elems = take K (elems supports)\<rparr>"
  have s2: "getitem supports 0 = Inr supports_0"
    using B by (simp add: getitem_def shS supports_0_def)
  have sh0: "shape supports_0 = [K]" by (simp add: supports_0_def)
  have lt: "Suc i < K" if "i < K - 1" for i using that by simp
  have v1: "reduce_all (\<lambda>d. d > 0) deltas" if validate_args
    unfolding reduce_all_vec [OF dl(2,1)]
  proof (intro allI impI)
    fix i assume "i < K - 1"
    then have i: "Suc i < K" by (rule lt)
    from valid [OF that] i
    have "elem_at target_support [Suc i] - elem_at target_support [i] > 0" by blast
    moreover from dl(3) i
    have "elem_at deltas [i] = elem_at target_support [Suc i] - elem_at target_support [i]"
      by blast
    ultimately show "0 < elem_at deltas [i]" by (simp only:)
  qed
  have dz_at: "elem_at delta_z [] = ?dz" using dz by simp
  have v2: "reduce_all (\<lambda>d. d = elem_at delta_z []) deltas" if validate_args
    unfolding reduce_all_vec [OF dl(2,1)] dz_at
  proof (intro allI impI)
    fix i assume "i < K - 1"
    then have i: "Suc i < K" by (rule lt)
    from valid [OF that] i
    have "elem_at target_support [Suc i] - elem_at target_support [i] = ?dz" by blast
    moreover from dl(3) i
    have "elem_at deltas [i] = elem_at target_support [Suc i] - elem_at target_support [i]"
      by blast
    ultimately show "elem_at deltas [i] = ?dz" by (simp only:)
  qed
  define v_min where "v_min = \<lparr>shape = [], elems = [?vmin]\<rparr>"
  define v_max where "v_max = \<lparr>shape = [], elems = [?vmax]\<rparr>"
  have Kpos: "0 < K" using K by simp
  have s4: "getitem target_support 0 = Inr v_min"
    unfolding v_min_def by (rule getitem_first_vec [OF wfT shT Kpos])
  have s5: "getitem target_support (- 1) = Inr v_max"
    unfolding v_max_def by (rule getitem_last_vec [OF wfT shT Kpos])
  have shv: "shape v_min = []" "shape v_max = []" by (simp_all add: v_min_def v_max_def)
  from clip_by_value_spec [OF shv, of supports] obtain clipped where
    c: "clip_by_value supports v_min v_max = Inr clipped" "shape clipped = shape supports"
       "wf_tensor clipped"
       "\<forall>idx. valid_index (shape supports) idx \<longrightarrow>
          elem_at clipped idx = max (min (elem_at supports idx) (elem_at v_max [])) (elem_at v_min [])"
    by blast
  have shC: "shape clipped = [B, K]" using c(2) shS by simp
  have c_at: "elem_at clipped [b, i] = max (min (elem_at supports [b, i]) ?vmax) ?vmin"
    if "b < B" "i < K" for b i
  proof -
    have "valid_index (shape supports) [b, i]" using that by (simp add: shS)
    with c(4) have "elem_at clipped [b, i]
        = max (min (elem_at supports [b, i]) (elem_at v_max [])) (elem_at v_min [])"
      by blast
    then show ?thesis by (simp add: v_min_def v_max_def)
  qed
  from clipped_support_tiled [OF c(3) shC] obtain cs tiled where
    t: "getitem_all_new_all clipped = Inr cs" "tile (pack1 cs) [1, 1, K, 1] = Inr tiled"
       "shape tiled = [1, B, K, K]" "wf_tensor tiled"
       "\<forall>b j i. b < B \<longrightarrow> j < K \<longrightarrow> i < K \<longrightarrow>
              elem_at tiled [0, b, j, i] = elem_at clipped [b, i]"
    by blast
  from reshaped_target_support [OF wfT shT, of B] obtain col tiled_ts r where
    r: "getitem_all_new target_support = Inr col" "tile col [B, 1] = Inr tiled_ts"
       "reshape tiled_ts [B, K, 1] = Inr r" "shape r = [B, K, 1]" "wf_tensor r"
       "\<forall>b j. b < B \<longrightarrow> j < K \<longrightarrow> elem_at r [b, j, 0] = elem_at target_support [j]"
    by blast
  have nz': "?dz \<noteq> 0" using nz by simp
  from inner_prod_tail [OF t(4,3) r(5,4) dz nz' wfW shW]
  obtain difference ratio quot cq w3 inner where
    n: "binop (-) tiled r = Inr difference"
       "tf_divide (tf_abs difference) delta_z = Inr ratio"
       "binop (-) (scalar 1) ratio = Inr quot"
       "clip_by_value quot (scalar 0) (scalar 1) = Inr cq"
       "getitem_all_new_all weights = Inr w3"
       "binop (*) cq w3 = Inr inner"
       "shape inner = [1, B, K, K]" "wf_tensor inner"
       "\<forall>b j i. b < B \<longrightarrow> j < K \<longrightarrow> i < K \<longrightarrow>
         elem_at inner [0, b, j, i] =
            max (min (1 - \<bar>elem_at tiled [0, b, j, i] - elem_at r [b, j, 0]\<bar> / ?dz) 1) 0
            * elem_at weights [b, i]"
    by blast
  have run: "project_distribution_inner_prod supports weights target_support validate_args
      = Inr (inner, B, K)"
    by (rule inner_prod_run [OF shS shW shT s1 s2 sh0 v1 v2 s4 s5 c(1) t(1,2) r(1,2,3) n(1-6)])
  have fin: "elem_at inner [0, b, j, i] =
      max (min (1 - \<bar>max (min (elem_at supports [b, i]) ?vmax) ?vmin - elem_at target_support [j]\<bar>
                 / ?dz) 1) 0 * elem_at weights [b, i]"
    if "b < B" "j < K" "i < K" for b j i
  proof -
    have "elem_at tiled [0, b, j, i] = elem_at clipped [b, i]" using t(5) that by blast
    moreover have "elem_at r [b, j, 0] = elem_at target_support [j]" using r(6) that by blast
    moreover from n(9) that have "elem_at inner [0, b, j, i] =
            max (min (1 - \<bar>elem_at tiled [0, b, j, i] - elem_at r [b, j, 0]\<bar> / ?dz) 1) 0
            * elem_at weights [b, i]" by blast
    ultimately show ?thesis using c_at [OF that(1,3)] by (simp only:)
  qed
  show ?thesis
  proof (intro exI conjI allI impI)
    show "project_distribution_inner_prod supports weights target_support validate_args
      = Inr (inner, B, K)" by (rule run)
    show "shape inner = [1, B, K, K]" by (rule n(7))
    show "wf_tensor inner" by (rule n(8))
  next
    fix b j i assume "b < B" "j < K" "i < K"
    then show "elem_at inner [0, b, j, i] =
      max (min (1 - \<bar>max (min (elem_at supports [b, i]) ?vmax) ?vmin - elem_at target_support [j]\<bar>
                 / ?dz) 1) 0 * elem_at weights [b, i]" by (rule fin)
  qed
qed

lemma sum_list_upt_sum: "(\<Sum>i\<leftarrow>[0..<n]. f i) = (\<Sum>i<n. f i :: real)"
  by (simp add: interv_sum_list_conv_sum_set_nat atLeast0LessThan)

lemma valid_target_supportD:
  assumes v: "valid_target_support t" and wf: "wf_tensor t" and sh: "shape t = [K]"
    and i: "Suc i < K"
  shows "elem_at t [Suc i] - elem_at t [i] > 0"
    and "elem_at t [Suc i] - elem_at t [i] = elem_at t [1] - elem_at t [0]"
proof -
  have len: "length (elems t) = K" using wf sh by (simp add: wf_tensor_def)
  have "sorted_wrt (<) (elems t)"
    using v by (simp add: valid_target_support_def strictly_increasing_def)
  then have "elems t ! i < elems t ! Suc i"
    using i len sorted_wrt_nth_less [of "(<)" "elems t" i "Suc i"] by simp
  then show "elem_at t [Suc i] - elem_at t [i] > 0" using sh by simp
  have "i \<in> set [0..<length (elems t) - 1]" using i len by simp
  moreover have "list_all (\<lambda>i. elems t ! Suc i - elems t ! i = elems t ! 1 - elems t ! 0)
      [0..<length (elems t) - 1]"
    using v by (simp add: valid_target_support_def uniformly_spaced_def)
  ultimately have "elems t ! Suc i - elems t ! i = elems t ! 1 - elems t ! 0"
    unfolding list_all_iff by blast
  then show "elem_at t [Suc i] - elem_at t [i] = elem_at t [1] - elem_at t [0]"
    using sh by simp
qed

lemma overlap_weight_eq:
  assumes "length (elems target_support) = K"
  shows "overlap_weight target_support s j =
     max (min (1 - \<bar>max (min s (elem_at target_support [K - 1])) (elem_at target_support [0])
                      - elem_at target_support [j]\<bar>
                   / (elem_at target_support [1] - elem_at target_support [0])) 1) 0"
  unfolding overlap_weight_def clamp_def Let_def assms
  by (simp only: max.commute)

lemma project_distribution_char:
  assumes ws: "well_shaped supports weights target_support B K"
    and nz: "elem_at target_support [1] \<noteq> elem_at target_support [0]"
    and valid: "validate_args \<Longrightarrow> valid_target_support target_support"
  shows "\<exists>inner p.
      project_distribution_inner_prod supports weights target_support validate_args
        = Inr (inner, B, K) \<and>
      project_distribution supports weights target_support validate_args = Inr p \<and>
      shape inner = [1, B, K, K] \<and> shape p = [B, K] \<and> wf_tensor p \<and>
      (\<forall>b j i. b < B \<longrightarrow> j < K \<longrightarrow> i < K \<longrightarrow>
         elem_at inner [0, b, j, i] =
           overlap_weight target_support (elem_at supports [b, i]) j * elem_at weights [b, i]) \<and>
      (\<forall>b j. b < B \<longrightarrow> j < K \<longrightarrow>
         elem_at p [b, j] = (\<Sum>i<K. elem_at inner [0, b, j, i]))"
proof -
  from ws have wfS: "wf_tensor supports" and shS: "shape supports = [B, K]"
    and wfW: "wf_tensor weights" and shW: "shape weights = [B, K]"
    and wfT: "wf_tensor target_support" and shT: "shape target_support = [K]"
    and B: "0 < B" and K: "2 \<le> K"
    by (simp_all add: well_shaped_def)
  have lenT: "length (elems target_support) = K" using wfT shT by (simp add: wf_tensor_def)
  have v: "\<forall>i. Suc i < K \<longrightarrow>
        elem_at target_support [Suc i] - elem_at target_support [i] > 0 \<and>
        elem_at target_support [Suc i] - elem_at target_support [i]
          = elem_at target_support [1] - elem_at target_support [0]" if validate_args
    using valid_target_supportD [OF valid [OF that] wfT shT] by blast
  from inner_prod_char [OF wfS shS wfW shW wfT shT B K nz v] obtain inner where
    n: "project_distribution_inner_prod supports weights target_support validate_args
          = Inr (inner, B, K)"
       "shape inner = [1, B, K, K]"
       "\<forall>b j i. b < B \<longrightarrow> j < K \<longrightarrow> i < K \<longrightarrow>
         elem_at inner [0, b, j, i] =
              max (min (1 - \<bar>max (min (elem_at supports [b, i]) (elem_at target_support [K - 1]))
                                 (elem_at target_support [0])
                            - elem_at target_support [j]\<bar>
                         / (elem_at target_support [1] - elem_at target_support [0])) 1) 0
              * elem_at weights [b, i]"
    by blast
  from reduce_reshape_inner [OF n(2)] obtain proj p where
    p: "reduce_sum inner 3 = Inr proj" "reshape proj [B, K] = Inr p"
       "shape p = [B, K]" "wf_tensor p"
       "\<forall>b j. b < B \<longrightarrow> j < K \<longrightarrow>
         elem_at p [b, j] = (\<Sum>i\<leftarrow>[0..<K]. elem_at inner [0, b, j, i])"
    by blast
  have run: "project_distribution supports weights target_support validate_args = Inr p"
    by (simp add: project_distribution_def n(1) p(1,2))
  have ow: "elem_at inner [0, b, j, i] =
      overlap_weight target_support (elem_at supports [b, i]) j * elem_at weights [b, i]"
    if "b < B" "j < K" "i < K" for b j i
  proof -
    from n(3) that have "elem_at inner [0, b, j, i] =
              max (min (1 - \<bar>max (min (elem_at supports [b, i]) (elem_at target_support [K - 1]))
                                 (elem_at target_support [0])
                            - elem_at target_support [j]\<bar>
                         / (elem_at target_support [1] - elem_at target_support [0])) 1) 0
              * elem_at weights [b, i]" by blast
    then show ?thesis
      by (simp only: overlap_weight_eq [OF lenT])
  qed
  have sm: "elem_at p [b, j] = (\<Sum>i<K. elem_at inner [0, b, j, i])" if "b < B" "j < K" for b j
  proof -
    have "elem_at p [b, j] = (\<Sum>i\<leftarrow>[0..<K]. elem_at inner [0, b, j, i])"
      by (rule p(5) [rule_format, OF that])
    then show ?thesis by (simp only: sum_list_upt_sum)
  qed
  show ?thesis
  proof (intro exI conjI allI impI)
    show "project_distribution_inner_prod supports weights target_support validate_args
        = Inr (inner, B, K)" by (rule n(1))
    show "project_distribution supports weights target_support validate_args = Inr p"
      by (rule run)
    show "shape inner = [1, B, K, K]" by (rule n(2))
    show "shape p = [B, K]" by (rule p(3))
    show "wf_tensor p" by (rule p(4))
  next
    fix b j i assume "b < B" "j < K" "i < K"
    then show "elem_at inner [0, b, j, i] =
      overlap_weight target_support (elem_at supports [b, i]) j * elem_at weights [b, i]"
      by (rule ow)
  next
    fix b j assume "b < B" "j < K"
    then show "elem_at p [b, j] = (\<Sum>i<K. elem_at inner [0, b, j, i])" by (rule sm)
  qed
qed

text \<open>The tent kernel is a difference of two ramps, so its sum over the atoms telescopes.\<close>

lemma tent_ramp: "clamp (1 - \<bar>x\<bar>) 0 1 = clamp (x + 1) 0 1 - clamp x 0 1"
  unfolding clamp_def max_def min_def abs_if by (simp split: if_splits)

lemma clamp_bounds: "lo \<le> hi \<Longrightarrow> lo \<le> clamp x lo hi \<and> clamp x lo hi \<le> hi"
  unfolding clamp_def max_def min_def by (simp split: if_splits)

lemma clamp_nonneg: "0 \<le> clamp x 0 1"
  unfolding clamp_def by simp

lemma atom_closed_form:
  assumes v: "valid_target_support t" and wf: "wf_tensor t" and sh: "shape t = [K]"
  shows "j < K \<Longrightarrow> elem_at t [j] = elem_at t [0] + real j * (elem_at t [1] - elem_at t [0])"
proof (induction j)
  case 0
  then show ?case by simp
next
  case (Suc j)
  have "elem_at t [Suc j] - elem_at t [j] = elem_at t [1] - elem_at t [0]"
    using valid_target_supportD(2) [OF v wf sh Suc.prems] .
  moreover have "elem_at t [j] = elem_at t [0] + real j * (elem_at t [1] - elem_at t [0])"
    using Suc by simp
  ultimately show ?case by (simp add: algebra_simps)
qed

lemma delta_z_pos:
  assumes v: "valid_target_support t" and wf: "wf_tensor t" and sh: "shape t = [K]"
    and K: "2 \<le> K"
  shows "0 < elem_at t [1] - elem_at t [0]"
proof -
  have "Suc 0 < K" using K by simp
  from valid_target_supportD(1) [OF v wf sh this] show ?thesis by simp
qed

text \<open>In units of \<open>delta_z\<close> from the first atom, the overlap weight is the tent kernel
  at distance \<open>u - j\<close>.\<close>

lemma overlap_weight_tent:
  assumes v: "valid_target_support t" and wf: "wf_tensor t" and sh: "shape t = [K]"
    and K: "2 \<le> K" and j: "j < K"
  shows "overlap_weight t s j =
     clamp (1 - \<bar>(clamp s (elem_at t [0]) (elem_at t [K - 1]) - elem_at t [0])
                    / (elem_at t [1] - elem_at t [0]) - real j\<bar>) 0 1"
proof -
  let ?dz = "elem_at t [1] - elem_at t [0]"
  let ?c = "clamp s (elem_at t [0]) (elem_at t [K - 1])"
  have len: "length (elems t) = K" using wf sh by (simp add: wf_tensor_def)
  have dz: "0 < ?dz" by (rule delta_z_pos [OF v wf sh K])
  have tj: "elem_at t [j] = elem_at t [0] + real j * ?dz"
    by (rule atom_closed_form [OF v wf sh j])
  have "(?c - elem_at t [j]) / ?dz = (?c - elem_at t [0]) / ?dz - real j"
    using dz by (simp add: tj field_simps)
  then have "\<bar>?c - elem_at t [j]\<bar> / ?dz = \<bar>(?c - elem_at t [0]) / ?dz - real j\<bar>"
    using dz by (metis abs_divide abs_of_pos)
  then show ?thesis
    unfolding overlap_weight_def Let_def len by (simp only:)
qed

lemma overlap_weight_sum:
  assumes v: "valid_target_support t" and wf: "wf_tensor t" and sh: "shape t = [K]"
    and K: "2 \<le> K"
  shows "(\<Sum>j<K. overlap_weight t s j) = 1"
proof -
  let ?dz = "elem_at t [1] - elem_at t [0]"
  let ?c = "clamp s (elem_at t [0]) (elem_at t [K - 1])"
  define u where "u = (?c - elem_at t [0]) / ?dz"
  define g where "g j = clamp (u - real j + 1) 0 1" for j :: nat
  have dz: "0 < ?dz" by (rule delta_z_pos [OF v wf sh K])
  have last: "elem_at t [K - 1] = elem_at t [0] + real (K - 1) * ?dz"
    using K by (intro atom_closed_form [OF v wf sh]) simp
  have "0 \<le> real (K - 1) * ?dz" using dz by simp
  then have le: "elem_at t [0] \<le> elem_at t [K - 1]"
    unfolding last by linarith
  have c: "elem_at t [0] \<le> ?c" "?c \<le> elem_at t [K - 1]"
    using clamp_bounds [OF le] by simp_all
  have u0: "0 \<le> u" using c(1) dz by (simp add: u_def)
  have "?c - elem_at t [0] \<le> real (K - 1) * ?dz" using c(2) last by simp
  then have u1: "u \<le> real (K - 1)" using dz by (simp add: u_def pos_divide_le_eq)
  have "overlap_weight t s j = g j - g (Suc j)" if "j < K" for j
  proof -
    have "overlap_weight t s j = clamp (1 - \<bar>u - real j\<bar>) 0 1"
      unfolding u_def by (rule overlap_weight_tent [OF v wf sh K that])
    also have "\<dots> = clamp (u - real j + 1) 0 1 - clamp (u - real j) 0 1"
      by (rule tent_ramp)
    also have "u - real j = u - real (Suc j) + 1" by simp
    finally show ?thesis by (simp add: g_def)
  qed
  then have "(\<Sum>j<K. overlap_weight t s j) = (\<Sum>j<K. g j - g (Suc j))"
    by (intro sum.cong) simp_all
  also have "\<dots> = g 0 - g K" by (rule sum_lessThan_telescope')
  also have "g 0 = 1" using u0 by (simp add: g_def clamp_def)
  also have "g K = 0"
  proof -
    have "u - real K + 1 \<le> 0" using u1 K by (simp add: of_nat_diff)
    then show ?thesis by (simp add: g_def clamp_def)
  qed
  finally show ?thesis by simp
qed

text \<open>A source value that is clipped onto atom \<open>i\<close> gives all its weight to that atom.\<close>

lemma overlap_weight_at_atom:
  assumes v: "valid_target_support t" and wf: "wf_tensor t" and sh: "shape t = [K]"
    and K: "2 \<le> K" and i: "i < K" and j: "j < K"
    and c: "clamp s (elem_at t [0]) (elem_at t [K - 1]) = elem_at t [i]"
  shows "overlap_weight t s j = (if i = j then 1 else 0)"
proof -
  let ?dz = "elem_at t [1] - elem_at t [0]"
  have dz: "0 < ?dz" by (rule delta_z_pos [OF v wf sh K])
  have ti: "elem_at t [i] = elem_at t [0] + real i * ?dz"
    by (rule atom_closed_form [OF v wf sh i])
  have "(elem_at t [i] - elem_at t [0]) / ?dz = real i" using dz by (simp add: ti)
  then have ow: "overlap_weight t s j = clamp (1 - \<bar>real i - real j\<bar>) 0 1"
    using overlap_weight_tent [OF v wf sh K j, of s] by (simp only: c)
  show ?thesis
  proof (cases "i = j")
    case True
    then show ?thesis by (simp add: ow clamp_def)
  next
    case False
    then have "1 \<le> \<bar>real i - real j\<bar>" by (cases "i < j") (simp_all add: abs_if)
    then have "clamp (1 - \<bar>real i - real j\<bar>) 0 1 = 0"
      unfolding clamp_def max_def min_def by (simp split: if_splits)
    then show ?thesis using False by (simp add: ow)
  qed
qed

lemma overlap_weight_nonneg: "0 \<le> overlap_weight t s j"
  unfolding overlap_weight_def Let_def by (rule clamp_nonneg)

lemma first_le_last:
  assumes v: "valid_target_support t" and wf: "wf_tensor t" and sh: "shape t = [K]"
    and K: "2 \<le> K"
  shows "elem_at t [0] \<le> elem_at t [K - 1]"
proof -
  let ?dz = "elem_at t [1] - elem_at t [0]"
  have dz: "0 < ?dz" by (rule delta_z_pos [OF v wf sh K])
  have last: "elem_at t [K - 1] = elem_at t [0] + real (K - 1) * ?dz"
    using K by (intro atom_closed_form [OF v wf sh]) simp
  have "0 \<le> real (K - 1) * ?dz" using dz by simp
  then show ?thesis unfolding last by linarith
qed

lemma well_shaped_example:
  "well_shaped example_supports example_weights example_target_support 2 5"
  by (simp add: well_shaped_def example_supports_def example_weights_def
      example_target_support_def wf_tensor_def)

lemma valid_example: "valid_target_support example_target_support"
  by code_simp

lemma sum_elem_cong:
  "(\<And>i. i < K \<Longrightarrow> f i = g i) \<Longrightarrow> (\<Sum>i<K. f i) = (\<Sum>i<K. g i :: real)"
  by (rule sum.cong) simp_all

text \<open>C1. For every batch row and every target atom \<open>j\<close>, the function returns
  \<open>projected[row, j] = sum_i clamp(1 - |clip(supports[row, i], v_min, v_max) -
  target_support[j]| / delta_z, 0, 1) * weights[row, i]\<close>, for inputs of the documented
  shapes whose \<open>delta_z\<close> is not zero (the formula divides by it), and, when the
  arguments are validated, a valid \<open>target_support\<close>.\<close>

theorem project_distribution_formula:
  assumes "well_shaped supports weights target_support B K"
    and "elem_at target_support [1] \<noteq> elem_at target_support [0]"
    and "validate_args \<Longrightarrow> valid_target_support target_support"
  shows "\<exists>projected.
      project_distribution supports weights target_support validate_args = Inr projected \<and>
      shape projected = [B, K] \<and>
      (\<forall>row<B. \<forall>j<K. elem_at projected [row, j] =
         (\<Sum>i<K. overlap_weight target_support (elem_at supports [row, i]) j
                  * elem_at weights [row, i]))"
proof -
  from project_distribution_char [OF assms] obtain inner p where
    r: "project_distribution supports weights target_support validate_args = Inr p"
       "shape p = [B, K]"
       "\<forall>b j i. b < B \<longrightarrow> j < K \<longrightarrow> i < K \<longrightarrow>
         elem_at inner [0, b, j, i] =
           overlap_weight target_support (elem_at supports [b, i]) j * elem_at weights [b, i]"
       "\<forall>b j. b < B \<longrightarrow> j < K \<longrightarrow>
         elem_at p [b, j] = (\<Sum>i<K. elem_at inner [0, b, j, i])"
    by blast
  have "elem_at p [row, j] =
         (\<Sum>i<K. overlap_weight target_support (elem_at supports [row, i]) j
                  * elem_at weights [row, i])" if "row < B" "j < K" for row j
  proof -
    have "elem_at p [row, j] = (\<Sum>i<K. elem_at inner [0, row, j, i])"
      by (rule r(4) [rule_format, OF that])
    also have "\<dots> = (\<Sum>i<K. overlap_weight target_support (elem_at supports [row, i]) j
                  * elem_at weights [row, i])"
      by (rule sum_elem_cong) (rule r(3) [rule_format, OF that])
    finally show ?thesis .
  qed
  with r(1,2) show ?thesis by blast
qed

theorem project_distribution_formula_witness:
  "\<exists>projected.
      project_distribution example_supports example_weights example_target_support True
        = Inr projected \<and>
      shape projected = [2, 5] \<and>
      (\<forall>row<2. \<forall>j<5. elem_at projected [row, j] =
         (\<Sum>i<5. overlap_weight example_target_support (elem_at example_supports [row, i]) j
                  * elem_at example_weights [row, i]))"
proof (rule project_distribution_formula)
  show "well_shaped example_supports example_weights example_target_support 2 5"
    by (rule well_shaped_example)
  show "elem_at example_target_support [1] \<noteq> elem_at example_target_support [0]"
    by (simp add: example_target_support_def)
  show "valid_target_support example_target_support" by (rule valid_example)
qed

text \<open>C3. The worked example of the docstring: the supports \<open>[[0,2,4,6,8],[1,3,4,5,6]]\<close>
  with weights \<open>[[0.1,0.6,0.1,0.1,0.1],[0.1,0.2,0.5,0.1,0.1]]\<close> project onto
  \<open>[4,5,6,7,8]\<close> as \<open>[[0.8,0.0,0.1,0.0,0.1],[0.8,0.1,0.1,0.0,0.0]]\<close>, with and without
  validation of the arguments.\<close>

theorem worked_example:
  "project_distribution example_supports example_weights example_target_support False
     = Inr \<lparr>shape = [2, 5], elems = [8/10, 0, 1/10, 0, 1/10, 8/10, 1/10, 1/10, 0, 0]\<rparr> \<and>
   project_distribution example_supports example_weights example_target_support True
     = Inr \<lparr>shape = [2, 5], elems = [8/10, 0, 1/10, 0, 1/10, 8/10, 1/10, 1/10, 0, 0]\<rparr>"
  by code_simp

lemma valid_nonzero:
  assumes "well_shaped supports weights target_support B K"
    and "valid_target_support target_support"
  shows "elem_at target_support [1] \<noteq> elem_at target_support [0]"
proof -
  from assms(1) have "wf_tensor target_support" "shape target_support = [K]" "2 \<le> K"
    by (simp_all add: well_shaped_def)
  from delta_z_pos [OF assms(2) this] show ?thesis by simp
qed

text \<open>C2. Mass conservation: for inputs of the documented shapes with a strictly
  increasing, uniformly spaced \<open>target_support\<close>, every row of the result sums to the
  sum of the same row of \<open>weights\<close>.\<close>

theorem mass_conservation:
  assumes ws: "well_shaped supports weights target_support B K"
    and v: "valid_target_support target_support"
  shows "\<exists>projected.
      project_distribution supports weights target_support validate_args = Inr projected \<and>
      (\<forall>row<B. (\<Sum>j<K. elem_at projected [row, j]) = (\<Sum>i<K. elem_at weights [row, i]))"
proof -
  from ws have wfT: "wf_tensor target_support" and shT: "shape target_support = [K]"
    and K: "2 \<le> K"
    by (simp_all add: well_shaped_def)
  from project_distribution_char [OF ws valid_nonzero [OF ws v] v, of validate_args]
  obtain inner p where
    r: "project_distribution supports weights target_support validate_args = Inr p"
       "\<forall>b j i. b < B \<longrightarrow> j < K \<longrightarrow> i < K \<longrightarrow>
         elem_at inner [0, b, j, i] =
           overlap_weight target_support (elem_at supports [b, i]) j * elem_at weights [b, i]"
       "\<forall>b j. b < B \<longrightarrow> j < K \<longrightarrow>
         elem_at p [b, j] = (\<Sum>i<K. elem_at inner [0, b, j, i])"
    by blast
  have "(\<Sum>j<K. elem_at p [row, j]) = (\<Sum>i<K. elem_at weights [row, i])" if row: "row < B" for row
  proof -
    let ?ow = "\<lambda>i j. overlap_weight target_support (elem_at supports [row, i]) j"
    have "(\<Sum>j<K. elem_at p [row, j]) = (\<Sum>j<K. \<Sum>i<K. ?ow i j * elem_at weights [row, i])"
    proof (rule sum_elem_cong)
      fix j assume j: "j < K"
      have "elem_at p [row, j] = (\<Sum>i<K. elem_at inner [0, row, j, i])"
        by (rule r(3) [rule_format, OF row j])
      also have "\<dots> = (\<Sum>i<K. ?ow i j * elem_at weights [row, i])"
        by (rule sum_elem_cong) (rule r(2) [rule_format, OF row j])
      finally show "elem_at p [row, j] = (\<Sum>i<K. ?ow i j * elem_at weights [row, i])" .
    qed
    also have "\<dots> = (\<Sum>i<K. \<Sum>j<K. ?ow i j * elem_at weights [row, i])"
      by (rule sum.swap)
    also have "\<dots> = (\<Sum>i<K. (\<Sum>j<K. ?ow i j) * elem_at weights [row, i])"
      by (simp only: sum_distrib_right)
    also have "\<dots> = (\<Sum>i<K. elem_at weights [row, i])"
      by (simp only: overlap_weight_sum [OF v wfT shT K] mult_1)
    finally show ?thesis .
  qed
  with r(1) show ?thesis by blast
qed

theorem mass_conservation_witness:
  "\<exists>projected.
      project_distribution example_supports example_weights example_target_support True
        = Inr projected \<and>
      (\<forall>row<2. (\<Sum>j<5. elem_at projected [row, j])
                 = (\<Sum>i<5. elem_at example_weights [row, i]))"
  by (rule mass_conservation [OF well_shaped_example valid_example])

text \<open>C4. Identity projection: a row of \<open>supports\<close> that equals \<open>target_support\<close>
  element by element (with \<open>target_support\<close> strictly increasing and uniformly spaced)
  is projected to the same row of \<open>weights\<close>.\<close>

theorem identity_projection:
  assumes ws: "well_shaped supports weights target_support B K"
    and v: "valid_target_support target_support"
    and row: "row < B"
    and same: "\<forall>i<K. elem_at supports [row, i] = elem_at target_support [i]"
  shows "\<exists>projected.
      project_distribution supports weights target_support validate_args = Inr projected \<and>
      (\<forall>j<K. elem_at projected [row, j] = elem_at weights [row, j])"
proof -
  from ws have wfT: "wf_tensor target_support" and shT: "shape target_support = [K]"
    and K: "2 \<le> K"
    by (simp_all add: well_shaped_def)
  let ?t = "\<lambda>i. elem_at target_support [i]"
  from project_distribution_char [OF ws valid_nonzero [OF ws v] v, of validate_args]
  obtain inner p where
    r: "project_distribution supports weights target_support validate_args = Inr p"
       "\<forall>b j i. b < B \<longrightarrow> j < K \<longrightarrow> i < K \<longrightarrow>
         elem_at inner [0, b, j, i] =
           overlap_weight target_support (elem_at supports [b, i]) j * elem_at weights [b, i]"
       "\<forall>b j. b < B \<longrightarrow> j < K \<longrightarrow>
         elem_at p [b, j] = (\<Sum>i<K. elem_at inner [0, b, j, i])"
    by blast
  have le: "?t 0 \<le> ?t (K - 1)" by (rule first_le_last [OF v wfT shT K])
  have inside: "clamp (?t i) (?t 0) (?t (K - 1)) = ?t i" if i: "i < K" for i
  proof -
    let ?dz = "?t 1 - ?t 0"
    have dz: "0 < ?dz" by (rule delta_z_pos [OF v wfT shT K])
    have ti: "?t i = ?t 0 + real i * ?dz" by (rule atom_closed_form [OF v wfT shT i])
    have tl: "?t (K - 1) = ?t 0 + real (K - 1) * ?dz"
      using K by (intro atom_closed_form [OF v wfT shT]) simp
    have "real i \<le> real (K - 1)" using i by simp
    then have "real i * ?dz \<le> real (K - 1) * ?dz"
      using dz by (intro mult_right_mono) simp_all
    then have hi: "?t i \<le> ?t (K - 1)" using ti tl by linarith
    have "0 \<le> real i * ?dz" using dz by simp
    then have lo: "?t 0 \<le> ?t i" using ti by linarith
    show ?thesis using lo hi by (simp add: clamp_def)
  qed
  have "elem_at p [row, j] = elem_at weights [row, j]" if j: "j < K" for j
  proof -
    have "elem_at p [row, j] = (\<Sum>i<K. elem_at inner [0, row, j, i])"
      by (rule r(3) [rule_format, OF row j])
    also have "\<dots> = (\<Sum>i<K. (if i = j then 1 else 0) * elem_at weights [row, i])"
    proof (rule sum_elem_cong)
      fix i assume i: "i < K"
      have s: "elem_at supports [row, i] = ?t i" using same i by blast
      have "overlap_weight target_support (?t i) j = (if i = j then 1 else 0)"
        by (rule overlap_weight_at_atom [OF v wfT shT K i j inside [OF i]])
      then show "elem_at inner [0, row, j, i]
          = (if i = j then 1 else 0) * elem_at weights [row, i]"
        using r(2) [rule_format, OF row j i] by (simp only: s)
    qed
    also have "\<dots> = (\<Sum>i\<in>{..<K}. if i = j then elem_at weights [row, i] else 0)"
      by (rule sum.cong) simp_all
    also have "\<dots> = elem_at weights [row, j]"
      using j by (simp only: sum.delta' sum.delta finite_lessThan lessThan_iff if_True)
    finally show ?thesis .
  qed
  with r(1) show ?thesis by blast
qed

theorem identity_projection_witness:
  "\<exists>projected.
      project_distribution example_identity_supports example_weights example_target_support
        True = Inr projected \<and>
      (\<forall>j<5. elem_at projected [0, j] = elem_at example_weights [0, j])"
proof (rule identity_projection)
  show "well_shaped example_identity_supports example_weights example_target_support 2 5"
    by (simp add: well_shaped_def example_identity_supports_def example_weights_def
        example_target_support_def wf_tensor_def)
  show "valid_target_support example_target_support" by (rule valid_example)
  show "(0::nat) < 2" by simp
  show "\<forall>i<5. elem_at example_identity_supports [0, i] = elem_at example_target_support [i]"
  proof (intro allI impI)
    fix i :: nat assume "i < 5"
    then have "i = 0 \<or> i = 1 \<or> i = 2 \<or> i = 3 \<or> i = 4" by arith
    then show "elem_at example_identity_supports [0, i] = elem_at example_target_support [i]"
      by (auto simp: elem_at_def example_identity_supports_def example_target_support_def)
  qed
qed

lemma clamp_below: "s \<le> lo \<Longrightarrow> lo \<le> hi \<Longrightarrow> clamp s lo hi = lo"
  by (simp add: clamp_def)

lemma clamp_above: "hi \<le> s \<Longrightarrow> lo \<le> hi \<Longrightarrow> clamp s lo hi = hi"
  by (simp add: clamp_def)

text \<open>C5. Clipping correctness, on the local \<open>inner_prod\<close> whose sum over the source
  atoms is the result: with a strictly increasing, uniformly spaced \<open>target_support\<close>, a
  source point at or below \<open>v_min\<close> gives its whole weight to atom 0 and nothing to any
  other atom, and a source point at or above \<open>v_max\<close> gives its whole weight to the last
  atom and nothing to any other atom.\<close>

theorem clipping_correctness:
  assumes ws: "well_shaped supports weights target_support B K"
    and v: "valid_target_support target_support"
  shows "\<exists>inner_prod projected.
      project_distribution_inner_prod supports weights target_support validate_args
        = Inr (inner_prod, B, K) \<and>
      project_distribution supports weights target_support validate_args = Inr projected \<and>
      (\<forall>row<B. \<forall>j<K. elem_at projected [row, j] = (\<Sum>i<K. elem_at inner_prod [0, row, j, i])) \<and>
      (\<forall>row<B. \<forall>i<K. \<forall>j<K.
         elem_at supports [row, i] \<le> elem_at target_support [0] \<longrightarrow>
           elem_at inner_prod [0, row, j, i] = (if j = 0 then elem_at weights [row, i] else 0)) \<and>
      (\<forall>row<B. \<forall>i<K. \<forall>j<K.
         elem_at target_support [K - 1] \<le> elem_at supports [row, i] \<longrightarrow>
           elem_at inner_prod [0, row, j, i]
             = (if j = K - 1 then elem_at weights [row, i] else 0))"
proof -
  from ws have wfT: "wf_tensor target_support" and shT: "shape target_support = [K]"
    and K: "2 \<le> K"
    by (simp_all add: well_shaped_def)
  let ?t = "\<lambda>i. elem_at target_support [i]"
  from project_distribution_char [OF ws valid_nonzero [OF ws v] v, of validate_args]
  obtain inner p where
    r: "project_distribution_inner_prod supports weights target_support validate_args
          = Inr (inner, B, K)"
       "project_distribution supports weights target_support validate_args = Inr p"
       "\<forall>b j i. b < B \<longrightarrow> j < K \<longrightarrow> i < K \<longrightarrow>
         elem_at inner [0, b, j, i] =
           overlap_weight target_support (elem_at supports [b, i]) j * elem_at weights [b, i]"
       "\<forall>b j. b < B \<longrightarrow> j < K \<longrightarrow>
         elem_at p [b, j] = (\<Sum>i<K. elem_at inner [0, b, j, i])"
    by blast
  have le: "?t 0 \<le> ?t (K - 1)" by (rule first_le_last [OF v wfT shT K])
  have K0: "0 < K" and K1: "K - 1 < K" using K by simp_all
  have low: "elem_at inner [0, row, j, i] = (if j = 0 then elem_at weights [row, i] else 0)"
    if "row < B" "i < K" "j < K" "elem_at supports [row, i] \<le> ?t 0" for row i j
  proof -
    have "clamp (elem_at supports [row, i]) (?t 0) (?t (K - 1)) = ?t 0"
      by (rule clamp_below [OF that(4) le])
    from overlap_weight_at_atom [OF v wfT shT K K0 that(3) this]
    have "overlap_weight target_support (elem_at supports [row, i]) j
        = (if 0 = j then 1 else 0)" .
    then show ?thesis
      using r(3) [rule_format, OF that(1) that(3) that(2)] by (cases "j = 0") simp_all
  qed
  have high: "elem_at inner [0, row, j, i] = (if j = K - 1 then elem_at weights [row, i] else 0)"
    if "row < B" "i < K" "j < K" "?t (K - 1) \<le> elem_at supports [row, i]" for row i j
  proof -
    have "clamp (elem_at supports [row, i]) (?t 0) (?t (K - 1)) = ?t (K - 1)"
      by (rule clamp_above [OF that(4) le])
    from overlap_weight_at_atom [OF v wfT shT K K1 that(3) this]
    have "overlap_weight target_support (elem_at supports [row, i]) j
        = (if K - 1 = j then 1 else 0)" .
    then show ?thesis
      using r(3) [rule_format, OF that(1) that(3) that(2)] by (cases "j = K - 1") auto
  qed
  show ?thesis
  proof (intro exI conjI allI impI)
    show "project_distribution_inner_prod supports weights target_support validate_args
          = Inr (inner, B, K)" by (rule r(1))
    show "project_distribution supports weights target_support validate_args = Inr p"
      by (rule r(2))
  next
    fix row j assume "row < B" "j < K"
    then show "elem_at p [row, j] = (\<Sum>i<K. elem_at inner [0, row, j, i])"
      by (rule r(4) [rule_format])
  next
    fix row i j
    assume "row < B" "i < K" "j < K" "elem_at supports [row, i] \<le> ?t 0"
    then show "elem_at inner [0, row, j, i] = (if j = 0 then elem_at weights [row, i] else 0)"
      by (rule low)
  next
    fix row i j
    assume "row < B" "i < K" "j < K" "?t (K - 1) \<le> elem_at supports [row, i]"
    then show "elem_at inner [0, row, j, i]
        = (if j = K - 1 then elem_at weights [row, i] else 0)"
      by (rule high)
  qed
qed

theorem clipping_correctness_witness:
  "\<exists>inner_prod projected.
      project_distribution_inner_prod example_supports example_weights example_target_support
        True = Inr (inner_prod, 2, 5) \<and>
      project_distribution example_supports example_weights example_target_support True
        = Inr projected \<and>
      elem_at example_supports [0, 1] \<le> elem_at example_target_support [0] \<and>
      elem_at inner_prod [0, 0, 0, 1] = elem_at example_weights [0, 1] \<and>
      elem_at inner_prod [0, 0, 3, 1] = 0 \<and>
      elem_at example_target_support [5 - 1] \<le> elem_at example_supports [0, 4] \<and>
      elem_at inner_prod [0, 0, 4, 4] = elem_at example_weights [0, 4] \<and>
      elem_at inner_prod [0, 0, 2, 4] = 0"
proof -
  have lo: "elem_at example_supports [0, 1] \<le> elem_at example_target_support [0]"
    by (simp add: elem_at_def example_supports_def example_target_support_def)
  have hi: "elem_at example_target_support [5 - 1] \<le> elem_at example_supports [0, 4]"
    by (simp add: elem_at_def example_supports_def example_target_support_def)
  from clipping_correctness [OF well_shaped_example valid_example, of True]
  obtain inner_prod projected where
    r: "project_distribution_inner_prod example_supports example_weights
          example_target_support True = Inr (inner_prod, 2, 5)"
       "project_distribution example_supports example_weights example_target_support True
          = Inr projected"
       "\<forall>row<2. \<forall>i<5. \<forall>j<5.
         elem_at example_supports [row, i] \<le> elem_at example_target_support [0] \<longrightarrow>
           elem_at inner_prod [0, row, j, i]
             = (if j = 0 then elem_at example_weights [row, i] else 0)"
       "\<forall>row<2. \<forall>i<5. \<forall>j<5.
         elem_at example_target_support [5 - 1] \<le> elem_at example_supports [row, i] \<longrightarrow>
           elem_at inner_prod [0, row, j, i]
             = (if j = 5 - 1 then elem_at example_weights [row, i] else 0)"
    by blast
  have a: "elem_at inner_prod [0, 0, 0, 1] = elem_at example_weights [0, 1]"
    using r(3) [rule_format, of 0 1 0] lo by simp
  have b: "elem_at inner_prod [0, 0, 3, 1] = 0"
    using r(3) [rule_format, of 0 1 3] lo by simp
  have c: "elem_at inner_prod [0, 0, 4, 4] = elem_at example_weights [0, 4]"
    using r(4) [rule_format, of 0 4 4] hi by simp
  have d: "elem_at inner_prod [0, 0, 2, 4] = 0"
    using r(4) [rule_format, of 0 4 2] hi by simp
  from r(1,2) lo hi a b c d show ?thesis by blast
qed

lemma valid_index_mat: "valid_index [m, n] idx \<longleftrightarrow> (\<exists>i<m. \<exists>j<n. idx = [i, j])"
  by (auto simp: valid_index_def list_all2_Cons2)

lemma reduce_all_mat:
  assumes "wf_tensor t" "shape t = [m, n]"
  shows "reduce_all p t \<longleftrightarrow> (\<forall>i<m. \<forall>j<n. p (elem_at t [i, j]))"
  using assms(2) by (auto simp: reduce_all_iff [OF assms(1)] valid_index_mat)

text \<open>C9, as amended. For inputs of the documented shapes whose \<open>delta_z\<close> is not zero
  (and, when the arguments are validated, a valid \<open>target_support\<close>), elementwise
  non-negative \<open>weights\<close> give an elementwise non-negative result, whatever the values in
  \<open>supports\<close> and the other values in \<open>target_support\<close>.\<close>

theorem nonnegative_projection:
  assumes ws: "well_shaped supports weights target_support B K"
    and nz: "elem_at target_support [1] \<noteq> elem_at target_support [0]"
    and v: "validate_args \<Longrightarrow> valid_target_support target_support"
    and w: "list_all (\<lambda>x. 0 \<le> x) (elems weights)"
  shows "\<exists>projected.
      project_distribution supports weights target_support validate_args = Inr projected \<and>
      list_all (\<lambda>x. 0 \<le> x) (elems projected)"
proof -
  from ws have wfW: "wf_tensor weights" and shW: "shape weights = [B, K]"
    by (simp_all add: well_shaped_def)
  from project_distribution_char [OF ws nz v] obtain inner p where
    r: "project_distribution supports weights target_support validate_args = Inr p"
       "shape p = [B, K]" "wf_tensor p"
       "\<forall>b j i. b < B \<longrightarrow> j < K \<longrightarrow> i < K \<longrightarrow>
         elem_at inner [0, b, j, i] =
           overlap_weight target_support (elem_at supports [b, i]) j * elem_at weights [b, i]"
       "\<forall>b j. b < B \<longrightarrow> j < K \<longrightarrow>
         elem_at p [b, j] = (\<Sum>i<K. elem_at inner [0, b, j, i])"
    by blast
  have "reduce_all (\<lambda>x. 0 \<le> x) weights" using w by (simp add: reduce_all_def)
  then have wpos: "0 \<le> elem_at weights [b, i]" if "b < B" "i < K" for b i
    using that unfolding reduce_all_mat [OF wfW shW] by blast
  have "0 \<le> elem_at p [b, j]" if b: "b < B" and j: "j < K" for b j
  proof -
    have "elem_at p [b, j] = (\<Sum>i<K. elem_at inner [0, b, j, i])"
      by (rule r(5) [rule_format, OF b j])
    also have "\<dots> = (\<Sum>i<K. overlap_weight target_support (elem_at supports [b, i]) j
                          * elem_at weights [b, i])"
      by (rule sum_elem_cong) (rule r(4) [rule_format, OF b j])
    also have "0 \<le> \<dots>"
    proof (rule sum_nonneg)
      fix i assume "i \<in> {..<K}"
      then have "i < K" by simp
      then show "0 \<le> overlap_weight target_support (elem_at supports [b, i]) j
                     * elem_at weights [b, i]"
        by (intro mult_nonneg_nonneg overlap_weight_nonneg wpos [OF b])
    qed
    finally show ?thesis .
  qed
  then have "reduce_all (\<lambda>x. 0 \<le> x) p"
    unfolding reduce_all_mat [OF r(3,2)] by blast
  then have "list_all (\<lambda>x. 0 \<le> x) (elems p)" by (simp add: reduce_all_def)
  with r(1) show ?thesis by blast
qed

theorem nonnegative_projection_witness:
  "\<exists>projected.
      project_distribution example_supports example_weights example_target_support True
        = Inr projected \<and>
      list_all (\<lambda>x. 0 \<le> x) (elems projected)"
proof (rule nonnegative_projection)
  show "well_shaped example_supports example_weights example_target_support 2 5"
    by (rule well_shaped_example)
  show "elem_at example_target_support [1] \<noteq> elem_at example_target_support [0]"
    by (simp add: example_target_support_def)
  show "valid_target_support example_target_support" by (rule valid_example)
  show "list_all (\<lambda>x. 0 \<le> x) (elems example_weights)"
    by (simp add: example_weights_def)
qed

text \<open>C9 as stated fails where \<open>delta_z\<close> is zero: with \<open>target_support = [4, 4]\<close>,
  \<open>supports = [[4, 4]]\<close> and the non-negative \<open>weights = [[1, 1]]\<close>, unvalidated, the
  function divides \<open>0\<close> by \<open>0\<close> and returns no tensor of non-negative reals.\<close>

theorem nonnegative_projection_counterexample:
  "well_shaped degenerate_supports degenerate_weights degenerate_target_support 1 2 \<and>
   list_all (\<lambda>x. 0 \<le> x) (elems degenerate_weights) \<and>
   project_distribution degenerate_supports degenerate_weights degenerate_target_support False
     = Inl NonFinite \<and>
   \<not> (\<exists>projected.
        project_distribution degenerate_supports degenerate_weights degenerate_target_support
          False = Inr projected \<and>
        list_all (\<lambda>x. 0 \<le> x) (elems projected))"
proof -
  have a: "well_shaped degenerate_supports degenerate_weights degenerate_target_support 1 2"
    by (simp add: well_shaped_def degenerate_supports_def degenerate_weights_def
        degenerate_target_support_def wf_tensor_def)
  have b: "list_all (\<lambda>x. 0 \<le> x) (elems degenerate_weights)"
    by (simp add: degenerate_weights_def)
  have c: "project_distribution degenerate_supports degenerate_weights
      degenerate_target_support False = Inl NonFinite"
    by code_simp
  from a b c show ?thesis by simp
qed

lemma ebind_ValueError:
  assumes "\<And>e. m = Inl e \<Longrightarrow> e = ValueError"
    and "\<And>x. m = Inr x \<Longrightarrow> f x = Inl ValueError"
  shows "ebind m f = Inl ValueError"
  using assms by (cases m) auto

lemma getitem_from1_error: "getitem_from1 t = Inl e \<Longrightarrow> e = ValueError"
  by (auto simp: getitem_from1_def split: list.splits)

lemma getitem_butlast_error: "getitem_butlast t = Inl e \<Longrightarrow> e = ValueError"
  by (auto simp: getitem_butlast_def split: list.splits)

lemma getitem_error: "getitem t i = Inl e \<Longrightarrow> e = ValueError"
  by (auto simp: getitem_def Let_def split: list.splits if_splits)

lemma getitem_shape: "getitem t i = Inr x \<Longrightarrow> shape x = tl (shape t)"
  by (auto simp: getitem_def Let_def split: list.splits if_splits)

lemma binop_error: "binop f a b = Inl e \<Longrightarrow> e = ValueError"
  by (auto simp: binop_def split: option.splits)

lemma static_checks_fail:
  assumes "shape supports \<noteq> shape weights \<or>
           tl (shape supports) \<noteq> shape target_support \<or>
           length (shape target_support) \<noteq> 1"
  shows "(if shape supports \<noteq> shape weights then Inl ValueError
       else ebind (getitem supports 0)
        (\<lambda>supports_0.
            if shape supports_0 \<noteq> shape target_support then Inl ValueError
            else if length (shape target_support) \<noteq> 1 then Inl ValueError
            else rest supports_0)) = (Inl ValueError :: error + 'a)"
proof (cases "shape supports \<noteq> shape weights")
  case True
  then show ?thesis by simp
next
  case False
  show ?thesis
  proof (cases "getitem supports 0")
    case (Inl e)
    then show ?thesis using False getitem_error [OF Inl] by simp
  next
    case (Inr s0)
    from getitem_shape [OF Inr] assms False
    have "shape s0 \<noteq> shape target_support \<or> length (shape target_support) \<noteq> 1"
      by auto
    then show ?thesis using False Inr by auto
  qed
qed

text \<open>C10. The three static shape assertions stand before the test of
  \<open>validate_args\<close>: when \<open>supports\<close> and \<open>weights\<close> differ in shape, or a row of
  \<open>supports\<close> differs in shape from \<open>target_support\<close>, or \<open>target_support\<close> is not of
  rank 1, the call raises \<open>ValueError\<close>, whether the arguments are validated or not.\<close>

theorem shape_checks_unconditional:
  assumes "shape supports \<noteq> shape weights \<or>
           tl (shape supports) \<noteq> shape target_support \<or>
           length (shape target_support) \<noteq> 1"
  shows "project_distribution supports weights target_support validate_args = Inl ValueError"
proof -
  have "project_distribution_inner_prod supports weights target_support validate_args
      = Inl ValueError"
    unfolding project_distribution_inner_prod_def
    by (rule ebind_ValueError, erule getitem_from1_error,
        rule ebind_ValueError, erule getitem_butlast_error,
        rule ebind_ValueError, erule binop_error,
        rule ebind_ValueError, erule getitem_error,
        rule static_checks_fail [OF assms])
  then show ?thesis by (simp add: project_distribution_def)
qed

theorem shape_checks_unconditional_witness:
  "project_distribution example_supports mismatched_weights example_target_support False
     = Inl ValueError \<and>
   project_distribution example_supports example_weights rank2_target_support False
     = Inl ValueError"
proof
  show "project_distribution example_supports mismatched_weights example_target_support False
     = Inl ValueError"
    by (rule shape_checks_unconditional)
       (simp add: example_supports_def mismatched_weights_def)
  show "project_distribution example_supports example_weights rank2_target_support False
     = Inl ValueError"
    by (rule shape_checks_unconditional)
       (simp add: rank2_target_support_def)
qed

lemma valid_target_supportI:
  assumes wf: "wf_tensor t" and sh: "shape t = [K]"
    and inc: "\<And>i. Suc i < K \<Longrightarrow> elem_at t [Suc i] - elem_at t [i] > 0"
    and uni: "\<And>i. Suc i < K \<Longrightarrow>
        elem_at t [Suc i] - elem_at t [i] = elem_at t [1] - elem_at t [0]"
  shows "valid_target_support t"
proof -
  have len: "length (elems t) = K" using wf sh by (simp add: wf_tensor_def)
  have "elems t ! i < elems t ! Suc i" if "Suc i < length (elems t)" for i
    using inc [of i] that len sh by simp
  then have "sorted_wrt (<) (elems t)"
    by (simp add: sorted_wrt_iff_nth_Suc_transp)
  moreover have "elems t ! Suc i - elems t ! i = elems t ! 1 - elems t ! 0"
    if "i \<in> set [0..<length (elems t) - 1]" for i
  proof -
    from that have "Suc i < K" using len by simp
    from uni [OF this] show ?thesis using sh by simp
  qed
  then have "list_all (\<lambda>i. elems t ! Suc i - elems t ! i = elems t ! 1 - elems t ! 0)
      [0..<length (elems t) - 1]"
    unfolding list_all_iff by blast
  ultimately show ?thesis
    by (simp add: valid_target_support_def strictly_increasing_def uniformly_spaced_def)
qed

text \<open>The statements before the division: they succeed for all inputs of the documented
  shapes, whatever the values.\<close>

lemma projection_prefix:
  assumes ws: "well_shaped supports weights target_support B K"
  shows "\<exists>ts_from1 ts_butlast deltas delta_z supports_0 v_min v_max clipped cs tiled col
      tiled_ts r difference.
      getitem_from1 target_support = Inr ts_from1 \<and>
      getitem_butlast target_support = Inr ts_butlast \<and>
      binop (-) ts_from1 ts_butlast = Inr deltas \<and>
      getitem deltas 0 = Inr delta_z \<and>
      getitem supports 0 = Inr supports_0 \<and>
      shape supports_0 = [K] \<and>
      getitem target_support 0 = Inr v_min \<and>
      getitem target_support (- 1) = Inr v_max \<and>
      clip_by_value supports v_min v_max = Inr clipped \<and>
      getitem_all_new_all clipped = Inr cs \<and>
      tile (pack1 cs) [1, 1, K, 1] = Inr tiled \<and>
      getitem_all_new target_support = Inr col \<and>
      tile col [B, 1] = Inr tiled_ts \<and>
      reshape tiled_ts [B, K, 1] = Inr r \<and>
      binop (-) tiled r = Inr difference \<and>
      shape difference = [1, B, K, K] \<and>
      shape deltas = [K - 1] \<and> wf_tensor deltas \<and>
      (\<forall>i. Suc i < K \<longrightarrow>
         elem_at deltas [i] = elem_at target_support [Suc i] - elem_at target_support [i]) \<and>
      shape delta_z = [] \<and>
      elems delta_z = [elem_at target_support [1] - elem_at target_support [0]]"
proof -
  from ws have wfS: "wf_tensor supports" and shS: "shape supports = [B, K]"
    and wfT: "wf_tensor target_support" and shT: "shape target_support = [K]"
    and B: "0 < B" and K: "2 \<le> K"
    by (simp_all add: well_shaped_def)
  let ?dz = "elem_at target_support [1] - elem_at target_support [0]"
  from target_support_deltas [OF wfT shT K] obtain ts_from1 ts_butlast deltas delta_z where
    s1: "getitem_from1 target_support = Inr ts_from1"
        "getitem_butlast target_support = Inr ts_butlast"
        "binop (-) ts_from1 ts_butlast = Inr deltas"
        "getitem deltas 0 = Inr delta_z"
    and dl: "shape deltas = [K - 1]" "wf_tensor deltas"
        "\<forall>i. Suc i < K \<longrightarrow> elem_at deltas [i] = elem_at target_support [Suc i] - elem_at target_support [i]"
    and dz: "shape delta_z = []" "elems delta_z = [?dz]"
    by blast
  define supports_0 where "supports_0 = \<lparr>shape = [K], elems = take K (elems supports)\<rparr>"
  have s2: "getitem supports 0 = Inr supports_0"
    using B by (simp add: getitem_def shS supports_0_def)
  have sh0: "shape supports_0 = [K]" by (simp add: supports_0_def)
  define v_min where "v_min = \<lparr>shape = [], elems = [elem_at target_support [0]]\<rparr>"
  define v_max where "v_max = \<lparr>shape = [], elems = [elem_at target_support [K - 1]]\<rparr>"
  have Kpos: "0 < K" using K by simp
  have s4: "getitem target_support 0 = Inr v_min"
    unfolding v_min_def by (rule getitem_first_vec [OF wfT shT Kpos])
  have s5: "getitem target_support (- 1) = Inr v_max"
    unfolding v_max_def by (rule getitem_last_vec [OF wfT shT Kpos])
  have shv: "shape v_min = []" "shape v_max = []" by (simp_all add: v_min_def v_max_def)
  from clip_by_value_spec [OF shv, of supports] obtain clipped where
    c: "clip_by_value supports v_min v_max = Inr clipped" "shape clipped = shape supports"
       "wf_tensor clipped"
    by blast
  have shC: "shape clipped = [B, K]" using c(2) shS by simp
  from clipped_support_tiled [OF c(3) shC] obtain cs tiled where
    t: "getitem_all_new_all clipped = Inr cs" "tile (pack1 cs) [1, 1, K, 1] = Inr tiled"
       "shape tiled = [1, B, K, K]"
    by blast
  from reshaped_target_support [OF wfT shT, of B] obtain col tiled_ts r where
    r: "getitem_all_new target_support = Inr col" "tile col [B, 1] = Inr tiled_ts"
       "reshape tiled_ts [B, K, 1] = Inr r" "shape r = [B, K, 1]"
    by blast
  have "broadcast_shape (shape tiled) (shape r) = Some [1, B, K, K]"
    by (simp add: t(3) r(4) broadcast_shape_def pad_shape_def)
  from binop_spec [OF this, of "(-)"] obtain difference where
    d: "binop (-) tiled r = Inr difference" "shape difference = [1, B, K, K]"
    by blast
  show ?thesis
    apply (intro exI conjI)
    apply (rule s1(1))
    apply (rule s1(2))
    apply (rule s1(3))
    apply (rule s1(4))
    apply (rule s2)
    apply (rule sh0)
    apply (rule s4)
    apply (rule s5)
    apply (rule c(1))
    apply (rule t(1))
    apply (rule t(2))
    apply (rule r(1))
    apply (rule r(2))
    apply (rule r(3))
    apply (rule d(1))
    apply (rule d(2))
    apply (rule dl(1))
    apply (rule dl(2))
    apply (rule dl(3))
    apply (rule dz(1))
    apply (rule dz(2))
    done
qed

lemma project_distribution_invalid:
  assumes ws: "well_shaped supports weights target_support B K"
    and bad: "\<not> valid_target_support target_support"
  shows "project_distribution supports weights target_support True = Inl InvalidArgumentError"
proof -
  from ws have shS: "shape supports = [B, K]" and shW: "shape weights = [B, K]"
    and wfT: "wf_tensor target_support" and shT: "shape target_support = [K]"
    by (simp_all add: well_shaped_def)
  from projection_prefix [OF ws]
  obtain ts_from1 ts_butlast deltas delta_z supports_0 where
    s: "getitem_from1 target_support = Inr ts_from1"
       "getitem_butlast target_support = Inr ts_butlast"
       "binop (-) ts_from1 ts_butlast = Inr deltas"
       "getitem deltas 0 = Inr delta_z"
       "getitem supports 0 = Inr supports_0"
    and sh0: "shape supports_0 = [K]"
    and dl: "shape deltas = [K - 1]" "wf_tensor deltas"
      "\<forall>i. Suc i < K \<longrightarrow>
         elem_at deltas [i] = elem_at target_support [Suc i] - elem_at target_support [i]"
    and dz: "shape delta_z = []"
      "elems delta_z = [elem_at target_support [1] - elem_at target_support [0]]"
    by blast
  have dz_at: "elem_at delta_z [] = elem_at target_support [1] - elem_at target_support [0]"
    using dz by simp
  have fails: "\<not> (reduce_all (\<lambda>d. d > 0) deltas \<and>
      reduce_all (\<lambda>d. d = elem_at delta_z []) deltas)"
  proof
    assume a: "reduce_all (\<lambda>d. d > 0) deltas \<and>
      reduce_all (\<lambda>d. d = elem_at delta_z []) deltas"
    have "valid_target_support target_support"
    proof (rule valid_target_supportI [OF wfT shT])
      fix i assume i: "Suc i < K"
      then have i': "i < K - 1" by simp
      have e: "elem_at deltas [i] = elem_at target_support [Suc i] - elem_at target_support [i]"
        using dl(3) i by blast
      from a have "0 < elem_at deltas [i]"
        unfolding reduce_all_vec [OF dl(2,1)] using i' by blast
      then show "elem_at target_support [Suc i] - elem_at target_support [i] > 0"
        by (simp only: e)
      from a have "elem_at deltas [i] = elem_at delta_z []"
        unfolding reduce_all_vec [OF dl(2,1)] using i' by blast
      then show "elem_at target_support [Suc i] - elem_at target_support [i]
          = elem_at target_support [1] - elem_at target_support [0]"
        by (simp only: e dz_at)
    qed
    with bad show False by contradiction
  qed
  have d: "shape_at supports 1 = Inr K" by (simp add: shape_at_def shS)
  have "project_distribution_inner_prod supports weights target_support True
      = Inl InvalidArgumentError"
    unfolding project_distribution_inner_prod_def s ebind_simps
    apply (simp only: shS shW sh0 shT d ebind_simps if_True if_False simp_thms)
    apply (insert fails)
    apply auto
    done
  then show ?thesis by (simp add: project_distribution_def)
qed

lemma project_distribution_nonfinite:
  assumes ws: "well_shaped supports weights target_support B K"
    and z: "elem_at target_support [1] = elem_at target_support [0]"
  shows "project_distribution supports weights target_support False = Inl NonFinite"
proof -
  from ws have shS: "shape supports = [B, K]" and shW: "shape weights = [B, K]"
    and shT: "shape target_support = [K]" and B: "0 < B" and K: "2 \<le> K"
    by (simp_all add: well_shaped_def)
  from projection_prefix [OF ws]
  obtain ts_from1 ts_butlast deltas delta_z supports_0 v_min v_max clipped cs tiled col
      tiled_ts r difference where
    s: "getitem_from1 target_support = Inr ts_from1"
       "getitem_butlast target_support = Inr ts_butlast"
       "binop (-) ts_from1 ts_butlast = Inr deltas"
       "getitem deltas 0 = Inr delta_z"
       "getitem supports 0 = Inr supports_0"
       "getitem target_support 0 = Inr v_min"
       "getitem target_support (- 1) = Inr v_max"
       "clip_by_value supports v_min v_max = Inr clipped"
       "getitem_all_new_all clipped = Inr cs"
       "tile (pack1 cs) [1, 1, K, 1] = Inr tiled"
       "getitem_all_new target_support = Inr col"
       "tile col [B, 1] = Inr tiled_ts"
       "reshape tiled_ts [B, K, 1] = Inr r"
       "binop (-) tiled r = Inr difference"
    and sh0: "shape supports_0 = [K]"
    and shD: "shape difference = [1, B, K, K]"
    and dz: "shape delta_z = []"
      "elems delta_z = [elem_at target_support [1] - elem_at target_support [0]]"
    by blast
  have z': "elem_at target_support [Suc 0] = elem_at target_support [0]"
    using z by simp
  have "prod_list [1, B, K, K] \<noteq> 0" using B K by simp
  then have div: "tf_divide (tf_abs difference) delta_z = Inl NonFinite"
    by (simp add: tf_divide_def shD dz z')
  have d: "shape_at supports 0 = Inr B" "shape_at target_support 0 = Inr K"
    by (simp_all add: shape_at_def shS shT)
  have "project_distribution_inner_prod supports weights target_support False
      = Inl NonFinite"
    unfolding project_distribution_inner_prod_def s(1-4) ebind_simps
    apply (simp only: shS shW s(5) sh0 shT ebind_simps if_True if_False simp_thms)
    apply (simp only: s d div ebind_simps Let_def)
    apply simp
    done
  then show ?thesis by (simp add: project_distribution_def)
qed

text \<open>C6. Validation toggling: for inputs of the documented shapes whose
  \<open>target_support\<close> is not strictly increasing or not uniformly spaced, the call with
  \<open>validate_args\<close> raises the error of a failed assertion, and the call without
  \<open>validate_args\<close> raises nothing (it returns a tensor, or divides by zero when the first
  two atoms are equal).\<close>

theorem validation_toggling:
  assumes ws: "well_shaped supports weights target_support B K"
    and bad: "\<not> valid_target_support target_support"
  shows "project_distribution supports weights target_support True = Inl InvalidArgumentError \<and>
         \<not> raises (project_distribution supports weights target_support False)"
proof
  show "project_distribution supports weights target_support True = Inl InvalidArgumentError"
    by (rule project_distribution_invalid [OF ws bad])
  show "\<not> raises (project_distribution supports weights target_support False)"
  proof (cases "elem_at target_support [1] = elem_at target_support [0]")
    case True
    from project_distribution_nonfinite [OF ws True] show ?thesis
      by (simp add: raises_def)
  next
    case False
    from project_distribution_char [OF ws False, of False] obtain p where
      "project_distribution supports weights target_support False = Inr p"
      by blast
    then show ?thesis by (simp add: raises_def)
  qed
qed

theorem validation_toggling_witness:
  "project_distribution example_supports example_weights malformed_target_support True
     = Inl InvalidArgumentError \<and>
   \<not> raises (project_distribution example_supports example_weights malformed_target_support
       False)"
proof (rule validation_toggling)
  show "well_shaped example_supports example_weights malformed_target_support 2 5"
    by (simp add: well_shaped_def example_supports_def example_weights_def
        malformed_target_support_def wf_tensor_def)
  show "\<not> valid_target_support malformed_target_support"
    by code_simp
qed

section \<open>What the loss builds\<close>

lemma tensor_eqI:
  assumes "wf_tensor a" "wf_tensor b" "shape a = shape b"
    and "\<And>idx. valid_index (shape a) idx \<Longrightarrow> elem_at a idx = elem_at b idx"
  shows "a = b"
proof -
  have "elems a = elems b"
  proof (rule nth_equalityI)
    show "length (elems a) = length (elems b)"
      using assms(1-3) by (simp add: wf_tensor_def)
    fix n assume "n < length (elems a)"
    then have n: "n < prod_list (shape a)" using assms(1) by (simp add: wf_tensor_def)
    from ravel_unravel [OF n] assms(4) [of "unravel (shape a) n"]
    show "elems a ! n = elems b ! n"
      by (simp add: elem_at_def assms(3) [symmetric])
  qed
  with assms(3) show ?thesis by simp
qed

lemma tiled_support_spec:
  assumes wfS: "wf_tensor support" and shS: "shape support = [K]"
  shows "\<exists>r. tiled_support support B K = Inr r \<and> shape r = [B, K] \<and> wf_tensor r \<and>
           (\<forall>b k. b < B \<longrightarrow> k < K \<longrightarrow> elem_at r [b, k] = elem_at support [k])"
proof -
  have "length [B] = length (shape support)" by (simp add: shS)
  from tile_spec [OF this] obtain tiled where
    t: "tile support [B] = Inr tiled"
       "shape tiled = map2 (*) (shape support) [B]" "wf_tensor tiled"
       "\<forall>idx. valid_index (map2 (*) (shape support) [B]) idx \<longrightarrow>
          elem_at tiled idx = elem_at support (map2 (\<lambda>i d. i mod d) idx (shape support))"
    by blast
  have m: "map2 (*) (shape support) [B] = [K * B]" by (simp add: shS)
  define r where "r = \<lparr>shape = [B, K], elems = elems tiled\<rparr>"
  have b: "reshape tiled [B, K] = Inr r"
    using t(2) unfolding m by (simp add: reshape_def r_def mult.commute)
  have wfr: "wf_tensor r"
    using t(2,3) unfolding m by (simp add: wf_tensor_def r_def mult.commute)
  have r_at: "elem_at r [b, k] = elem_at support [k]" if "b < B" "k < K" for b k
  proof -
    have lt: "b * K + k < K * B"
      using flat_index_less [OF that] by (simp add: mult.commute)
    have "elem_at r [b, k] = elems tiled ! (b * K + k)"
      by (simp add: elem_at_def r_def)
    also have "\<dots> = elem_at tiled [b * K + k]"
      using t(2) unfolding m by (simp add: elem_at_def)
    also have "\<dots> = elem_at support [(b * K + k) mod K]"
      using t(4) lt unfolding m by (simp add: shS)
    also have "(b * K + k) mod K = k" using that by simp
    finally show ?thesis .
  qed
  show ?thesis using t(1) b wfr r_at by (auto simp: r_def tiled_support_def)
qed

lemma broadcast_shape_col_mat [simp]: "broadcast_shape [B, Suc 0] [B, K] = Some [B, K]"
  by (simp add: broadcast_shape_def pad_shape_def)

lemma bidx_col: "b < B \<Longrightarrow> bidx [B, Suc 0] [b, k] = [b, 0]"
  by (simp add: bidx_def bsel_less)

lemma binop_col_mat:
  assumes "shape a = [B, 1]" "shape c = [B, K]"
  shows "\<exists>r. binop f a c = Inr r \<and> shape r = [B, K] \<and> wf_tensor r \<and>
           (\<forall>b k. b < B \<longrightarrow> k < K \<longrightarrow>
              elem_at r [b, k] = f (elem_at a [b, 0]) (elem_at c [b, k]))"
proof -
  have "broadcast_shape (shape a) (shape c) = Some [B, K]" by (simp add: assms)
  from binop_spec [OF this, of f] obtain r where
    r: "binop f a c = Inr r" "shape r = [B, K]" "wf_tensor r"
       "\<forall>idx. valid_index [B, K] idx \<longrightarrow>
          elem_at r idx = f (elem_at a (bidx (shape a) idx)) (elem_at c (bidx (shape c) idx))"
    by blast
  have "elem_at r [b, k] = f (elem_at a [b, 0]) (elem_at c [b, k])" if "b < B" "k < K" for b k
  proof -
    have v: "valid_index [B, K] [b, k]" using that by simp
    have "bidx (shape c) [b, k] = [b, k]" using bidx_same [OF v] by (simp add: assms)
    moreover have "bidx (shape a) [b, k] = [b, 0]" using bidx_col [OF that(1)] by (simp add: assms)
    ultimately show ?thesis using r(4) v by simp
  qed
  with r(1-3) show ?thesis by blast
qed

lemma binop_scalar_left:
  "\<exists>r. binop f (scalar c) t = Inr r \<and> shape r = shape t \<and> wf_tensor r \<and>
       (\<forall>idx. valid_index (shape t) idx \<longrightarrow> elem_at r idx = f c (elem_at t idx))"
proof -
  have "broadcast_shape (shape (scalar c)) (shape t) = Some (shape t)" by simp
  from binop_spec [OF this, of f] obtain r where
    r: "binop f (scalar c) t = Inr r" "shape r = shape t" "wf_tensor r"
       "\<forall>idx. valid_index (shape t) idx \<longrightarrow>
          elem_at r idx = f (elem_at (scalar c) (bidx (shape (scalar c)) idx))
                            (elem_at t (bidx (shape t) idx))"
    by blast
  have "elem_at r idx = f c (elem_at t idx)" if "valid_index (shape t) idx" for idx
    using r(4) that bidx_same [OF that] by simp
  with r(1-3) show ?thesis by blast
qed

lemma getitem_all_new_vec:
  assumes "wf_tensor t" "shape t = [B]"
  shows "\<exists>c. getitem_all_new t = Inr c \<and> shape c = [B, 1] \<and> wf_tensor c \<and>
           (\<forall>b. elem_at c [b, 0] = elem_at t [b])"
  using assms by (simp add: getitem_all_new_def wf_tensor_def elem_at_def)

lemma getitem_all_butlast_pair:
  assumes "shape t = [B, 2]"
  shows "\<exists>c. getitem_all_butlast t = Inr c \<and> shape c = [B, 1] \<and> wf_tensor c \<and>
           (\<forall>b<B. elem_at c [b, 0] = elem_at t [b, 0])"
proof -
  have "elem_at (tabulate [B, 1] (\<lambda>idx. elem_at t idx)) [b, 0] = elem_at t [b, 0]"
    if "b < B" for b
    using that by (intro elem_at_tabulate) simp
  then show ?thesis by (simp add: getitem_all_butlast_def assms)
qed

lemma squeeze1_col:
  assumes "wf_tensor t" "shape t = [B, 1]"
  shows "\<exists>c. squeeze1 t = Inr c \<and> shape c = [B] \<and> wf_tensor c \<and>
           (\<forall>b. elem_at c [b] = elem_at t [b, 0])"
  using assms by (simp add: squeeze1_def wf_tensor_def elem_at_def)

lemma experience_to_next_time_steps_pair:
  assumes "shape t = [B, 2]"
  shows "\<exists>c. experience_to_next_time_steps t = Inr c \<and> shape c = [B] \<and> wf_tensor c \<and>
           (\<forall>b<B. elem_at c [b] = elem_at t [b, 0])"
proof -
  from getitem_all_butlast_pair [OF assms] obtain y where
    y: "getitem_all_butlast t = Inr y" "shape y = [B, 1]" "wf_tensor y"
       "\<forall>b<B. elem_at y [b, 0] = elem_at t [b, 0]"
    by blast
  from squeeze1_col [OF y(3,2)] obtain c where
    c: "squeeze1 y = Inr c" "shape c = [B]" "wf_tensor c" "\<forall>b. elem_at c [b] = elem_at y [b, 0]"
    by blast
  have "experience_to_next_time_steps t = Inr c"
    by (simp add: experience_to_next_time_steps_def y(1,2) c(1))
  moreover have "\<forall>b<B. elem_at c [b] = elem_at t [b, 0]"
    using c(4) y(4) by (simp del: elem_at_vec)
  ultimately show ?thesis using c(2,3) by blast
qed

lemma discounted_return_one_step:
  assumes "shape rewards = [B, 1]" "shape discounts = [B, 1]"
  shows "\<exists>r. discounted_return rewards discounts (zeros [B]) = Inr r \<and> shape r = [B] \<and>
           wf_tensor r \<and> (\<forall>b<B. elem_at r [b] = elem_at rewards [b, 0])"
proof -
  let ?g = "\<lambda>idx. foldr (\<lambda>t acc. elem_at rewards (idx @ [t]) + elem_at discounts (idx @ [t]) * acc)
                     [0..<1] (elem_at (zeros [B]) idx)"
  have z: "elem_at (zeros [B]) [b] = 0" if "b < B" for b
    unfolding zeros_def using that by (intro elem_at_tabulate) simp
  have "elem_at (tabulate [B] ?g) [b] = elem_at rewards [b, 0]" if "b < B" for b
  proof -
    have "elem_at (tabulate [B] ?g) [b] = ?g [b]"
      using that by (intro elem_at_tabulate) simp
    also have "\<dots> = elem_at rewards [b, 0]"
      using z [OF that] by (simp del: elem_at_vec)
    finally show ?thesis .
  qed
  then show ?thesis
    by (simp add: discounted_return_def assms zeros_def del: elem_at_vec)
qed

lemma reduce_prod_col:
  assumes "shape t = [B, 1]"
  shows "\<exists>r. reduce_prod t 1 = Inr r \<and> shape r = [B] \<and> wf_tensor r \<and>
           (\<forall>b<B. elem_at r [b] = elem_at t [b, 0])"
proof -
  let ?g = "\<lambda>idx. \<Prod>k\<leftarrow>[0..<shape t ! 1]. elem_at t (take 1 idx @ [k] @ drop 1 idx)"
  have "elem_at (tabulate [B] ?g) [b] = elem_at t [b, 0]" if "b < B" for b
  proof -
    have "elem_at (tabulate [B] ?g) [b] = ?g [b]"
      using that by (intro elem_at_tabulate) simp
    also have "\<dots> = elem_at t [b, 0]" by (simp add: assms)
    finally show ?thesis .
  qed
  then show ?thesis by (simp add: reduce_prod_def assms del: elem_at_vec)
qed

lemma target_support_1_step_spec:
  assumes wr: "wf_tensor next_reward" and sr: "shape next_reward = [B]"
    and wd: "wf_tensor next_discount" and sd: "shape next_discount = [B]"
    and st: "shape tiled = [B, K]"
  shows "\<exists>t. target_support_1_step next_reward next_discount tiled gamma reward_scale_factor
               = Inr t \<and> shape t = [B, K] \<and> wf_tensor t \<and>
           (\<forall>b k. b < B \<longrightarrow> k < K \<longrightarrow>
              elem_at t [b, k] = reward_scale_factor * elem_at next_reward [b]
                + gamma * (elem_at next_discount [b] * elem_at tiled [b, k]))"
proof -
  from getitem_all_new_vec [OF wd sd] obtain discount where
    d: "getitem_all_new next_discount = Inr discount" "shape discount = [B, 1]"
       "\<forall>b. elem_at discount [b, 0] = elem_at next_discount [b]"
    by blast
  from binop_col_mat [OF d(2) st, of "(*)"] obtain next_value_term where
    n: "binop (*) discount tiled = Inr next_value_term" "shape next_value_term = [B, K]"
       "\<forall>b k. b < B \<longrightarrow> k < K \<longrightarrow>
          elem_at next_value_term [b, k] = elem_at discount [b, 0] * elem_at tiled [b, k]"
    by blast
  from getitem_all_new_vec [OF wr sr] obtain reward where
    r: "getitem_all_new next_reward = Inr reward" "shape reward = [B, 1]"
       "\<forall>b. elem_at reward [b, 0] = elem_at next_reward [b]"
    by blast
  from binop_scalar_left [of "(*)" reward_scale_factor reward] obtain reward_term where
    rt: "binop (*) (scalar reward_scale_factor) reward = Inr reward_term"
        "shape reward_term = shape reward"
        "\<forall>idx. valid_index (shape reward) idx \<longrightarrow>
           elem_at reward_term idx = reward_scale_factor * elem_at reward idx"
    by blast
  from binop_scalar_left [of "(*)" gamma next_value_term] obtain g where
    g: "binop (*) (scalar gamma) next_value_term = Inr g" "shape g = shape next_value_term"
       "\<forall>idx. valid_index (shape next_value_term) idx \<longrightarrow>
          elem_at g idx = gamma * elem_at next_value_term idx"
    by blast
  have srt: "shape reward_term = [B, 1]" using rt(2) r(2) by simp
  have sg: "shape g = [B, K]" using g(2) n(2) by simp
  from binop_col_mat [OF srt sg, of "(+)"] obtain t where
    t: "binop (+) reward_term g = Inr t" "shape t = [B, K]" "wf_tensor t"
       "\<forall>b k. b < B \<longrightarrow> k < K \<longrightarrow>
          elem_at t [b, k] = elem_at reward_term [b, 0] + elem_at g [b, k]"
    by blast
  have run: "target_support_1_step next_reward next_discount tiled gamma reward_scale_factor
      = Inr t"
    by (simp add: target_support_1_step_def sr sd d(1) n(1) r(1) rt(1) g(1) t(1))
  have "elem_at t [b, k] = reward_scale_factor * elem_at next_reward [b]
          + gamma * (elem_at next_discount [b] * elem_at tiled [b, k])"
    if b: "b < B" and k: "k < K" for b k
  proof -
    have "elem_at reward_term [b, 0] = reward_scale_factor * elem_at reward [b, 0]"
      using rt(3) b by (simp add: r(2))
    moreover have "elem_at g [b, k] = gamma * elem_at next_value_term [b, k]"
      using g(3) b k by (simp add: n(2))
    moreover have "elem_at next_value_term [b, k] = elem_at discount [b, 0] * elem_at tiled [b, k]"
      using n(3) b k by blast
    moreover have "elem_at t [b, k] = elem_at reward_term [b, 0] + elem_at g [b, k]"
      using t(4) b k by blast
    ultimately show ?thesis using r(3) d(3) by (simp only:)
  qed
  with run t(2,3) show ?thesis by blast
qed

lemma target_support_n_step_spec:
  assumes sr: "shape experience_reward = [B, 2]"
    and sd: "shape experience_discount = [B, 2]"
    and st: "shape tiled = [B, K]"
  shows "\<exists>t. target_support_n_step experience_reward experience_discount tiled gamma
               reward_scale_factor B = Inr t \<and> shape t = [B, K] \<and> wf_tensor t \<and>
           (\<forall>b k. b < B \<longrightarrow> k < K \<longrightarrow>
              elem_at t [b, k] = reward_scale_factor * elem_at experience_reward [b, 0]
                + gamma * elem_at experience_discount [b, 0] * elem_at tiled [b, k])"
proof -
  from getitem_all_butlast_pair [OF sr] obtain reward_butlast where
    rb: "getitem_all_butlast experience_reward = Inr reward_butlast"
        "shape reward_butlast = [B, 1]"
        "\<forall>b<B. elem_at reward_butlast [b, 0] = elem_at experience_reward [b, 0]"
    by blast
  from binop_scalar_left [of "(*)" reward_scale_factor reward_butlast] obtain rewards where
    rs: "binop (*) (scalar reward_scale_factor) reward_butlast = Inr rewards"
        "shape rewards = shape reward_butlast"
        "\<forall>idx. valid_index (shape reward_butlast) idx \<longrightarrow>
           elem_at rewards idx = reward_scale_factor * elem_at reward_butlast idx"
    by blast
  from getitem_all_butlast_pair [OF sd] obtain discount_butlast where
    db: "getitem_all_butlast experience_discount = Inr discount_butlast"
        "shape discount_butlast = [B, 1]"
        "\<forall>b<B. elem_at discount_butlast [b, 0] = elem_at experience_discount [b, 0]"
    by blast
  from binop_scalar_left [of "(*)" gamma discount_butlast] obtain discounts where
    ds: "binop (*) (scalar gamma) discount_butlast = Inr discounts"
        "shape discounts = shape discount_butlast"
        "\<forall>idx. valid_index (shape discount_butlast) idx \<longrightarrow>
           elem_at discounts idx = gamma * elem_at discount_butlast idx"
    by blast
  have srs: "shape rewards = [B, 1]" using rs(2) rb(2) by simp
  have sds: "shape discounts = [B, 1]" using ds(2) db(2) by simp
  from discounted_return_one_step [OF srs sds] obtain returns where
    dr: "discounted_return rewards discounts (zeros [B]) = Inr returns"
        "shape returns = [B]" "wf_tensor returns"
        "\<forall>b<B. elem_at returns [b] = elem_at rewards [b, 0]"
    by blast
  from getitem_all_new_vec [OF dr(3,2)] obtain discounted_returns where
    dc: "getitem_all_new returns = Inr discounted_returns" "shape discounted_returns = [B, 1]"
        "\<forall>b. elem_at discounted_returns [b, 0] = elem_at returns [b]"
    by blast
  from reduce_prod_col [OF sds] obtain fvd where
    fv: "reduce_prod discounts 1 = Inr fvd" "shape fvd = [B]" "wf_tensor fvd"
        "\<forall>b<B. elem_at fvd [b] = elem_at discounts [b, 0]"
    by blast
  from getitem_all_new_vec [OF fv(3,2)] obtain final_value_discount where
    fc: "getitem_all_new fvd = Inr final_value_discount" "shape final_value_discount = [B, 1]"
        "\<forall>b. elem_at final_value_discount [b, 0] = elem_at fvd [b]"
    by blast
  from binop_col_mat [OF fc(2) st, of "(*)"] obtain final_value_term where
    ft: "binop (*) final_value_discount tiled = Inr final_value_term"
        "shape final_value_term = [B, K]"
        "\<forall>b k. b < B \<longrightarrow> k < K \<longrightarrow>
           elem_at final_value_term [b, k]
             = elem_at final_value_discount [b, 0] * elem_at tiled [b, k]"
    by blast
  from binop_col_mat [OF dc(2) ft(2), of "(+)"] obtain t where
    t: "binop (+) discounted_returns final_value_term = Inr t" "shape t = [B, K]" "wf_tensor t"
       "\<forall>b k. b < B \<longrightarrow> k < K \<longrightarrow>
          elem_at t [b, k] = elem_at discounted_returns [b, 0] + elem_at final_value_term [b, k]"
    by blast
  have run: "target_support_n_step experience_reward experience_discount tiled gamma
      reward_scale_factor B = Inr t"
    unfolding target_support_n_step_def
    by (simp only: rb(1) rs(1) db(1) ds(1) dr(1) dc(1) fv(1) fc(1) ft(1) t(1) ebind_simps)
  have "elem_at t [b, k] = reward_scale_factor * elem_at experience_reward [b, 0]
          + gamma * elem_at experience_discount [b, 0] * elem_at tiled [b, k]"
    if b: "b < B" and k: "k < K" for b k
  proof -
    have "elem_at rewards [b, 0] = reward_scale_factor * elem_at reward_butlast [b, 0]"
      using rs(3) b by (simp add: rb(2))
    moreover have "elem_at discounts [b, 0] = gamma * elem_at discount_butlast [b, 0]"
      using ds(3) b by (simp add: db(2))
    moreover have "elem_at reward_butlast [b, 0] = elem_at experience_reward [b, 0]"
      using rb(3) b by blast
    moreover have "elem_at discount_butlast [b, 0] = elem_at experience_discount [b, 0]"
      using db(3) b by blast
    moreover have "elem_at returns [b] = elem_at rewards [b, 0]" using dr(4) b by blast
    moreover have "elem_at fvd [b] = elem_at discounts [b, 0]" using fv(4) b by blast
    moreover have "elem_at final_value_term [b, k]
        = elem_at final_value_discount [b, 0] * elem_at tiled [b, k]"
      using ft(3) b k by blast
    moreover have "elem_at t [b, k]
        = elem_at discounted_returns [b, 0] + elem_at final_value_term [b, k]"
      using t(4) b k by blast
    ultimately show ?thesis using dc(3) fc(3) by (simp only:)
  qed
  with run t(2,3) show ?thesis by blast
qed

text \<open>C7. 1-step and n-step with \<open>n_step = 1\<close>: for an experience of two time steps (the
  window of \<open>n_step = 1\<close>), the n-step branch of \<open>_loss\<close> and the 1-step path build the
  same \<open>target_support\<close> matrix, whose row \<open>b\<close> is
  \<open>reward_scale_factor * reward[b, 0] + gamma * discount[b, 0] * support\<close>.\<close>

theorem one_step_n_step_equivalence:
  assumes sr: "shape experience_reward = [B, 2]"
    and sd: "shape experience_discount = [B, 2]"
    and wfS: "wf_tensor support" and shS: "shape support = [K]"
  shows "\<exists>t. loss_target_support 1 experience_reward experience_discount support K gamma
               reward_scale_factor B = Inr t \<and>
             ebind (tiled_support support B K) (\<lambda>tiled.
               target_support_n_step experience_reward experience_discount tiled gamma
                 reward_scale_factor B) = Inr t \<and>
             shape t = [B, K] \<and>
             (\<forall>b<B. \<forall>k<K. elem_at t [b, k]
                = reward_scale_factor * elem_at experience_reward [b, 0]
                  + gamma * elem_at experience_discount [b, 0] * elem_at support [k])"
proof -
  from tiled_support_spec [OF wfS shS, of B] obtain tiled where
    ti: "tiled_support support B K = Inr tiled" "shape tiled = [B, K]"
        "\<forall>b k. b < B \<longrightarrow> k < K \<longrightarrow> elem_at tiled [b, k] = elem_at support [k]"
    by blast
  from experience_to_next_time_steps_pair [OF sd] obtain next_discount where
    nd: "experience_to_next_time_steps experience_discount = Inr next_discount"
        "shape next_discount = [B]" "wf_tensor next_discount"
        "\<forall>b<B. elem_at next_discount [b] = elem_at experience_discount [b, 0]"
    by blast
  from experience_to_next_time_steps_pair [OF sr] obtain next_reward where
    nr: "experience_to_next_time_steps experience_reward = Inr next_reward"
        "shape next_reward = [B]" "wf_tensor next_reward"
        "\<forall>b<B. elem_at next_reward [b] = elem_at experience_reward [b, 0]"
    by blast
  from target_support_1_step_spec [OF nr(3,2) nd(3,2) ti(2), of gamma reward_scale_factor]
  obtain t1 where
    t1: "target_support_1_step next_reward next_discount tiled gamma reward_scale_factor = Inr t1"
        "shape t1 = [B, K]" "wf_tensor t1"
        "\<forall>b k. b < B \<longrightarrow> k < K \<longrightarrow>
           elem_at t1 [b, k] = reward_scale_factor * elem_at next_reward [b]
             + gamma * (elem_at next_discount [b] * elem_at tiled [b, k])"
    by blast
  from target_support_n_step_spec [OF sr sd ti(2), of gamma reward_scale_factor]
  obtain tn where
    tn: "target_support_n_step experience_reward experience_discount tiled gamma
           reward_scale_factor B = Inr tn"
        "shape tn = [B, K]" "wf_tensor tn"
        "\<forall>b k. b < B \<longrightarrow> k < K \<longrightarrow>
           elem_at tn [b, k] = reward_scale_factor * elem_at experience_reward [b, 0]
             + gamma * elem_at experience_discount [b, 0] * elem_at tiled [b, k]"
    by blast
  have e1: "elem_at t1 [b, k] = reward_scale_factor * elem_at experience_reward [b, 0]
      + gamma * elem_at experience_discount [b, 0] * elem_at support [k]"
    if b: "b < B" and k: "k < K" for b k
  proof -
    have "elem_at t1 [b, k] = reward_scale_factor * elem_at next_reward [b]
        + gamma * (elem_at next_discount [b] * elem_at tiled [b, k])"
      using t1(4) b k by blast
    moreover have "elem_at next_reward [b] = elem_at experience_reward [b, 0]"
      using nr(4) b by blast
    moreover have "elem_at next_discount [b] = elem_at experience_discount [b, 0]"
      using nd(4) b by blast
    moreover have "elem_at tiled [b, k] = elem_at support [k]" using ti(3) b k by blast
    ultimately show ?thesis by (simp only: mult.assoc)
  qed
  have en: "elem_at tn [b, k] = reward_scale_factor * elem_at experience_reward [b, 0]
      + gamma * elem_at experience_discount [b, 0] * elem_at support [k]"
    if b: "b < B" and k: "k < K" for b k
  proof -
    have "elem_at tiled [b, k] = elem_at support [k]" using ti(3) b k by blast
    then show ?thesis using tn(4) b k by simp
  qed
  have eq: "tn = t1"
  proof (rule tensor_eqI [OF tn(3) t1(3)])
    show "shape tn = shape t1" by (simp only: tn(2) t1(2))
    fix idx assume "valid_index (shape tn) idx"
    then obtain b k where i: "idx = [b, k]" "b < B" "k < K"
      unfolding tn(2) valid_index_mat by blast
    show "elem_at tn idx = elem_at t1 idx"
      unfolding i(1) by (simp only: e1 [OF i(2,3)] en [OF i(2,3)])
  qed
  have r1: "loss_target_support 1 experience_reward experience_discount support K gamma
      reward_scale_factor B = Inr t1"
    by (simp add: loss_target_support_def ti(1) nd(1) nr(1) t1(1))
  have rn: "ebind (tiled_support support B K) (\<lambda>tiled.
      target_support_n_step experience_reward experience_discount tiled gamma
        reward_scale_factor B) = Inr t1"
    by (simp only: ti(1) ebind_simps tn(1) eq)
  show ?thesis
  proof (intro exI conjI allI impI)
    show "loss_target_support 1 experience_reward experience_discount support K gamma
      reward_scale_factor B = Inr t1" by (rule r1)
    show "ebind (tiled_support support B K) (\<lambda>tiled.
      target_support_n_step experience_reward experience_discount tiled gamma
        reward_scale_factor B) = Inr t1" by (rule rn)
    show "shape t1 = [B, K]" by (rule t1(2))
    fix b k assume "b < B" "k < K"
    then show "elem_at t1 [b, k] = reward_scale_factor * elem_at experience_reward [b, 0]
      + gamma * elem_at experience_discount [b, 0] * elem_at support [k]"
      by (rule e1)
  qed
qed

theorem one_step_n_step_equivalence_witness:
  "\<exists>t. loss_target_support 1 example_reward example_discount example_support 3 (1 / 2) 2 2
          = Inr t \<and>
        ebind (tiled_support example_support 2 3) (\<lambda>tiled.
          target_support_n_step example_reward example_discount tiled (1 / 2) 2 2) = Inr t \<and>
        shape t = [2, 3] \<and>
        (\<forall>b<2. \<forall>k<3. elem_at t [b, k]
           = 2 * elem_at example_reward [b, 0]
             + 1 / 2 * elem_at example_discount [b, 0] * elem_at example_support [k])"
proof (rule one_step_n_step_equivalence)
  show "shape example_reward = [2, 2]" by (simp add: example_reward_def)
  show "shape example_discount = [2, 2]" by (simp add: example_discount_def)
  show "wf_tensor example_support" by (simp add: example_support_def wf_tensor_def)
  show "shape example_support = [3]" by (simp add: example_support_def)
qed

end
